theory Spec2Isabelle
  imports Main "HOL-Library.Word"
begin

unbundle bit_operations_syntax

section \<open>Data model of the linear-scan register allocator (src/jit/lsra.cpp)\<close>

text \<open>
  The development follows the release configuration of the allocator for a target that is
  not 32-bit ARM: code under \<^verbatim>\<open>#ifdef DEBUG\<close> and \<^verbatim>\<open>#ifdef _TARGET_ARM_\<close> is left out,
  \<^verbatim>\<open>assert\<close> is a no-op and \<^verbatim>\<open>noway_assert\<close> aborts the compilation.  Pointers into the
  arenas of Intervals, RefPositions and RegRecords are indices, a null pointer is \<open>None\<close>,
  and dereferencing a null pointer is an error value.
\<close>

subsection \<open>Registers, masks, locations, weights\<close>

text \<open>
  \<^verbatim>\<open>regNumber\<close> is an enumeration of the physical registers followed by the two pseudo
  registers \<^verbatim>\<open>REG_STK\<close> and \<^verbatim>\<open>REG_NA\<close>; \<^verbatim>\<open>regMaskTP\<close> is a 64-bit set of registers,
  \<^verbatim>\<open>LsraLocation\<close> and the weights are unsigned ints.
\<close>

datatype regNumber = REG nat | REG_STK | REG_NA

type_synonym regMaskTP = "64 word"

type_synonym LsraLocation = "32 word"

definition RBM_NONE :: regMaskTP where
  "RBM_NONE = 0"

definition genRegMask :: "nat \<Rightarrow> regMaskTP" where
  "genRegMask r = push_bit r 1"

definition MinLocation :: LsraLocation where
  "MinLocation = 0"

definition MaxLocation :: LsraLocation where
  "MaxLocation = - 1"

datatype RefType =
    RefTypeInvalid | RefTypeBB | RefTypeFixedReg | RefTypeExpUse | RefTypeParamDef
  | RefTypeDummyDef | RefTypeZeroInit | RefTypeUse | RefTypeDef | RefTypeKill
  | RefTypeKillGCRefs | RefTypeUpperVectorSave | RefTypeUpperVectorRestore

datatype var_types =
    TYP_UNDEF | TYP_VOID | TYP_INT | TYP_LONG | TYP_FLOAT | TYP_DOUBLE | TYP_REF | TYP_BYREF
  | TYP_STRUCT | TYP_SIMD8 | TYP_SIMD12 | TYP_SIMD16 | TYP_SIMD32 | TYP_UNKNOWN

datatype lsra_error = NullDereference | NowayAssert

subsection \<open>Tree nodes, RefPositions, Intervals, RegRecords\<close>

text \<open>
  What the allocator reads of the tree node of a RefPosition: the queries
  \<^verbatim>\<open>IsMultiRegCall\<close>, \<^verbatim>\<open>GetReturnRegType(idx)\<close>, \<^verbatim>\<open>OperIsPutArgSplit\<close>,
  \<^verbatim>\<open>GetRegType(idx)\<close>, \<^verbatim>\<open>OperIsPutArgReg\<close>, \<^verbatim>\<open>TypeGet\<close>, \<^verbatim>\<open>isCandidateLocalRef\<close>,
  \<^verbatim>\<open>lvRefCntWtd\<close> of the local variable the node refers to, the operator \<^verbatim>\<open>OperGet\<close>, the
  value \<^verbatim>\<open>IconValue\<close> of an integer constant, \<^verbatim>\<open>varTypeGCtype\<close>, the bits of a floating-point
  constant (what \<^verbatim>\<open>isBitwiseEqual\<close> compares) and the flag set by \<^verbatim>\<open>SetReuseRegVal\<close>.
\<close>

datatype genTreeOps = GT_CNS_INT | GT_CNS_DBL | GT_LCL_VAR | GT_OTHER

record GenTree =
  IsMultiRegCall :: bool
  GetReturnRegType :: "nat \<Rightarrow> var_types"
  OperIsPutArgSplit :: bool
  GetRegType :: "nat \<Rightarrow> var_types"
  OperIsPutArgReg :: bool
  TypeGet :: var_types
  isCandidateLocalRef :: bool
  lvRefCntWtd :: "32 word"
  OperGet :: genTreeOps
  IconValue :: int
  varTypeGCtype :: nat
  DblConBits :: "64 word"
  IsReuseRegVal :: bool

text \<open>
  A RefPosition.  \<^verbatim>\<open>getInterval\<close> is the Interval it refers to (\<open>None\<close> for a RefPosition
  of a physical register or of no referent), \<^verbatim>\<open>treeNode\<close> points into the arena of tree
  nodes.  The accessors \<^verbatim>\<open>RegOptional()\<close>, \<^verbatim>\<open>IsActualRef()\<close>, \<^verbatim>\<open>getRefEndLocation()\<close>,
  \<^verbatim>\<open>getRangeEndLocation()\<close>, \<^verbatim>\<open>getRangeEndRef()\<close> and \<^verbatim>\<open>isFixedRefOfRegMask(genRegMask(r))\<close> are
  declared in lsra.h, outside the sources at hand: their outcomes are fields
  (\<^verbatim>\<open>getRangeEndRef\<close> is the index of the RefPosition it returns).
\<close>

record RefPosition =
  getInterval :: "nat option"
  nextRefPosition :: "nat option"
  treeNode :: "nat option"
  bbNum :: nat
  nodeLocation :: LsraLocation
  registerAssignment :: regMaskTP
  refType :: RefType
  multiRegIdx :: nat
  lastUse :: bool
  reload :: bool
  spillAfter :: bool
  copyReg :: bool
  moveReg :: bool
  delayRegFree :: bool
  RegOptional :: bool
  IsActualRef :: bool
  getRefEndLocation :: LsraLocation
  isFixedRefOfReg :: "nat \<Rightarrow> bool"
  isFixedRegRef :: bool
  getRangeEndLocation :: LsraLocation
  getRangeEndRef :: nat

text \<open>
  The base class of Interval and RegRecord.  The accessors \<^verbatim>\<open>Interval::isAssignedTo(r)\<close> and
  \<^verbatim>\<open>Interval::getCurrentPreferences()\<close> of lsra.h are fields of the Interval.
\<close>

record Referenceable =
  firstRefPosition :: "nat option"
  recentRefPosition :: "nat option"
  lastRefPosition :: "nat option"
  isActive :: bool

record Interval = Referenceable +
  registerPreferences :: regMaskTP
  relatedInterval :: "nat option"
  assignedReg :: "nat option"
  registerType :: var_types
  isLocalVar :: bool
  isSplit :: bool
  isSpilled :: bool
  isConstant :: bool
  isUpperVector :: bool
  physReg :: regNumber
  varNum :: nat
  isAssignedTo :: "nat \<Rightarrow> bool"
  hasConflictingDefUse :: bool
  isSpecialPutArg :: bool
  preferCalleeSave :: bool
  getCurrentPreferences :: regMaskTP

record RegRecord = Referenceable +
  assignedInterval :: "nat option"
  previousInterval :: "nat option"
  regNum :: nat
  isCalleeSave :: bool
  isBusyUntilNextKill :: bool

text \<open>
  What is fixed by the target and by headers outside lsra.cpp: the block weights of
  block.h, the register ranges that \<^verbatim>\<open>Registers(regType)\<close> iterates over,
  \<^verbatim>\<open>useFloatReg\<close>, \<^verbatim>\<open>RefTypeIsUse\<close>, \<^verbatim>\<open>RefTypeIsDef\<close>, \<^verbatim>\<open>Interval::updateRegisterPreferences\<close> (as the new value of
  \<^verbatim>\<open>registerPreferences\<close>), \<^verbatim>\<open>RegSet::tmpNormalizeType\<close>, the feature and target macros,
  \<^verbatim>\<open>RBM_BYTE_REGS\<close> and the tables \<^verbatim>\<open>REG_VAR_ORDER\<close> and \<^verbatim>\<open>REG_VAR_ORDER_FLT\<close> that
  initialise \<^verbatim>\<open>lsraRegOrder\<close> and \<^verbatim>\<open>lsraRegOrderFlt\<close>.
\<close>

record LsraTarget =
  BB_ZERO_WEIGHT :: "32 word"
  BB_UNITY_WEIGHT :: "32 word"
  BB_MAX_WEIGHT :: "32 word"
  REG_INT_FIRST :: nat
  REG_INT_LAST :: nat
  REG_FP_FIRST :: nat
  REG_FP_LAST :: nat
  useFloatReg :: "var_types \<Rightarrow> bool"
  RefTypeIsUse :: "RefType \<Rightarrow> bool"
  RefTypeIsDef :: "RefType \<Rightarrow> bool"
  updateRegisterPreferences :: "Interval \<Rightarrow> regMaskTP \<Rightarrow> regMaskTP"
  FEATURE_PARTIAL_SIMD_CALLEE_SAVE :: bool
  FEATURE_ARG_SPLIT :: bool
  TARGET_64BIT :: bool
  LargeVectorSaveType :: var_types
  tmpNormalizeType :: "var_types \<Rightarrow> var_types"
  TARGET_X86 :: bool
  RBM_BYTE_REGS :: regMaskTP
  lsraRegOrder :: "nat list"
  lsraRegOrderFlt :: "nat list"

text \<open>
  The state of one \<^verbatim>\<open>LinearScan\<close> object: the arenas (with the tree nodes), the block weights
  \<^verbatim>\<open>blockInfo[bbNum].weight\<close>, the current block, the incoming VarToRegMaps (indexed by
  block number and variable index), \<^verbatim>\<open>splitOrSpilledVars\<close>, \<^verbatim>\<open>lvaTable[varNum].lvVarIndex\<close>
  and \<^verbatim>\<open>allRegs\<close>.
\<close>

record LinearScan =
  intervals :: "nat \<Rightarrow> Interval"
  refPositions :: "nat \<Rightarrow> RefPosition"
  physRegs :: "nat \<Rightarrow> RegRecord"
  trees :: "nat \<Rightarrow> GenTree"
  blockInfoWeight :: "nat \<Rightarrow> 32 word"
  curBBNum :: nat
  curBBStartLocation :: LsraLocation
  inVarToRegMaps :: "nat \<Rightarrow> nat \<Rightarrow> regNumber"
  splitOrSpilledVars :: "nat set"
  lvVarIndex :: "nat \<Rightarrow> nat"
  allRegs :: "var_types \<Rightarrow> regMaskTP"


subsection \<open>Register masks\<close>

text \<open>
  Modelled from the spec: \<^verbatim>\<open>genMaxOneBit\<close> and \<^verbatim>\<open>genRegNumFromMask\<close> are missing (they are
  defined with the target's register masks).  A mask is a set of candidate registers; the
  first holds of a mask with at most one register, the second is the number of that register.
\<close>

definition genMaxOneBit :: "regMaskTP \<Rightarrow> bool" where
  "genMaxOneBit m = (m AND (m - 1) = 0)"

definition genRegNumFromMask :: "regMaskTP \<Rightarrow> nat" where
  "genRegNumFromMask m = (case find (\<lambda>r. bit m r) [0..<64] of Some r \<Rightarrow> r | None \<Rightarrow> 64)"


subsection \<open>Write-back: the accounting of concurrent spills\<close>

text \<open>The two arrays \<^verbatim>\<open>currentSpill[TYP_COUNT]\<close> and \<^verbatim>\<open>maxSpill[TYP_COUNT]\<close> of unsigned ints.\<close>

record SpillCounts =
  currentSpill :: "var_types \<Rightarrow> 32 word"
  maxSpill :: "var_types \<Rightarrow> 32 word"

definition initMaxSpill :: SpillCounts where
  "initMaxSpill = \<lparr> currentSpill = (\<lambda>_. 0), maxSpill = (\<lambda>_. 0) \<rparr>"

text \<open>
  The type under which a spilled temporary is counted (lines 6720-6765).  A RefPosition
  without tree node takes the node of the first RefPosition of its Interval; dereferencing a
  null pointer there is an error.
\<close>

definition spillTreeNode :: "LinearScan \<Rightarrow> Interval \<Rightarrow> RefPosition \<Rightarrow> GenTree option" where
  "spillTreeNode ls interval rp =
     (case treeNode rp of
        Some t \<Rightarrow> Some (trees ls t)
      | None \<Rightarrow>
          (case firstRefPosition interval of
             None \<Rightarrow> None
           | Some f \<Rightarrow> map_option (trees ls) (treeNode (refPositions ls f))))"

definition spillTyp ::
  "LsraTarget \<Rightarrow> LinearScan \<Rightarrow> Interval \<Rightarrow> RefPosition \<Rightarrow> lsra_error + var_types" where
  "spillTyp tgt ls interval rp =
     (if FEATURE_PARTIAL_SIMD_CALLEE_SAVE tgt \<and> refType rp = RefTypeUpperVectorSave
      then Inr (LargeVectorSaveType tgt)
      else
        (case spillTreeNode ls interval rp of
           None \<Rightarrow> Inl NullDereference
         | Some t \<Rightarrow>
             Inr (tmpNormalizeType tgt
               (if IsMultiRegCall t then GetReturnRegType t (multiRegIdx rp)
                else if FEATURE_ARG_SPLIT tgt \<and> OperIsPutArgSplit t then GetRegType t (multiRegIdx rp)
                else if FEATURE_ARG_SPLIT tgt \<and> \<not> TARGET_64BIT tgt \<and> OperIsPutArgReg t
                then (if TypeGet t = TYP_LONG then TYP_INT else TypeGet t)
                else TypeGet t))))"

text \<open>
  Modelled from the spec: the accessor \<^verbatim>\<open>assignedReg()\<close> of lsra.h is missing.  A RefPosition
  carries a candidate register mask and a resolved single-register assignment once allocated;
  the test \<^verbatim>\<open>assignedReg() == REG_NA\<close> holds when its register assignment is empty.
\<close>

definition assignedRegNA :: "RefPosition \<Rightarrow> bool" where
  "assignedRegNA rp = (registerAssignment rp = RBM_NONE)"

definition updateMaxSpill ::
  "LsraTarget \<Rightarrow> LinearScan \<Rightarrow> RefPosition \<Rightarrow> SpillCounts \<Rightarrow> lsra_error + SpillCounts" where
  "updateMaxSpill tgt ls rp s =
     (if FEATURE_PARTIAL_SIMD_CALLEE_SAVE tgt
         \<and> (refType rp = RefTypeUpperVectorSave \<or> refType rp = RefTypeUpperVectorRestore)
      then (case getInterval rp of None \<Rightarrow> Inl NullDereference | Some i \<Rightarrow> Inr s)
      else if spillAfter rp \<or> reload rp \<or> (RegOptional rp \<and> assignedRegNA rp)
      then
        (case getInterval rp of
           None \<Rightarrow> Inl NullDereference
         | Some i \<Rightarrow>
            (if \<not> isLocalVar (intervals ls i)
             then
               (case spillTyp tgt ls (intervals ls i) rp of
                  Inl e \<Rightarrow> Inl e
                | Inr typ \<Rightarrow>
                    (if spillAfter rp \<and> \<not> reload rp
                     then
                       (let c = currentSpill s typ + 1;
                            s1 = s\<lparr> currentSpill := (currentSpill s)(typ := c) \<rparr>
                        in Inr (if maxSpill s1 typ < c
                                then s1\<lparr> maxSpill := (maxSpill s1)(typ := c) \<rparr>
                                else s1))
                     else if reload rp
                     then Inr (s\<lparr> currentSpill := (currentSpill s)(typ := currentSpill s typ - 1) \<rparr>)
                     else if RegOptional rp \<and> assignedRegNA rp
                     then Inr (s\<lparr> currentSpill := (currentSpill s)(typ := currentSpill s typ - 1) \<rparr>)
                     else Inr s))
             else Inr s))
      else Inr s)"

text \<open>
  The write-back pass calls \<^verbatim>\<open>updateMaxSpill\<close> on the RefPositions in the order of the
  stream, starting from \<^verbatim>\<open>initMaxSpill\<close>.
\<close>

fun updateMaxSpills ::
  "LsraTarget \<Rightarrow> LinearScan \<Rightarrow> RefPosition list \<Rightarrow> SpillCounts \<Rightarrow> lsra_error + SpillCounts" where
  "updateMaxSpills tgt ls [] s = Inr s"
| "updateMaxSpills tgt ls (rp # rps) s =
     (case updateMaxSpill tgt ls rp s of
        Inl e \<Rightarrow> Inl e
      | Inr s' \<Rightarrow> updateMaxSpills tgt ls rps s')"

text \<open>
  \<^verbatim>\<open>recordMaxSpill\<close> (lines 6631-6665), run at the end of the write-back pass.  The flags
  \<^verbatim>\<open>needDoubleTmpForFPCall\<close> and \<^verbatim>\<open>needFloatTmpForFPCall\<close> are set while the RefPositions are
  built, outside lsra.cpp, and \<^verbatim>\<open>compRetType\<close> is the return type of the method.  The result
  is the counters and the calls \<^verbatim>\<open>tmpPreAllocateTemps(type, count)\<close>, in the order of the
  types.
\<close>

record SpillTempNeeds =
  needDoubleTmpForFPCall :: bool
  needFloatTmpForFPCall :: bool
  compRetType :: var_types

definition allTypes :: "var_types list" where
  "allTypes = [TYP_UNDEF, TYP_VOID, TYP_INT, TYP_LONG, TYP_FLOAT, TYP_DOUBLE, TYP_REF, TYP_BYREF,
               TYP_STRUCT, TYP_SIMD8, TYP_SIMD12, TYP_SIMD16, TYP_SIMD32, TYP_UNKNOWN]"

definition recordMaxSpill ::
  "LsraTarget \<Rightarrow> SpillTempNeeds \<Rightarrow> SpillCounts \<Rightarrow> SpillCounts \<times> (var_types \<times> 32 word) list" where
  "recordMaxSpill tgt needs s =
     (let returnType = tmpNormalizeType tgt (compRetType needs);
          s1 = (if TARGET_X86 tgt \<and> (needDoubleTmpForFPCall needs \<or> returnType = TYP_DOUBLE)
                then s\<lparr> maxSpill := (maxSpill s)(TYP_DOUBLE := maxSpill s TYP_DOUBLE + 1) \<rparr>
                else s);
          s2 = (if TARGET_X86 tgt \<and> (needFloatTmpForFPCall needs \<or> returnType = TYP_FLOAT)
                then s1\<lparr> maxSpill := (maxSpill s1)(TYP_FLOAT := maxSpill s1 TYP_FLOAT + 1) \<rparr>
                else s1)
      in (s2, map (\<lambda>t. (t, maxSpill s2 t)) (filter (\<lambda>t. maxSpill s2 t \<noteq> 0) allTypes)))"

text \<open>The accounting of the write-back pass as a whole.\<close>

definition writeBackMaxSpill ::
  "LsraTarget \<Rightarrow> LinearScan \<Rightarrow> SpillTempNeeds \<Rightarrow> RefPosition list
     \<Rightarrow> lsra_error + (SpillCounts \<times> (var_types \<times> 32 word) list)" where
  "writeBackMaxSpill tgt ls needs rps =
     (case updateMaxSpills tgt ls rps initMaxSpill of
        Inl e \<Rightarrow> Inl e
      | Inr s \<Rightarrow> Inr (recordMaxSpill tgt needs s))"


subsection \<open>The concurrent-spill count, stated independently of the counters\<close>

text \<open>
  The reading of the specification: every RefPosition marked \<^verbatim>\<open>spillAfter\<close> adds a spilled
  value of its type, every RefPosition marked \<^verbatim>\<open>reload\<close> takes one away, and the maximum is
  taken over all prefixes of the stream.
\<close>

definition refSpillTyp :: "LsraTarget \<Rightarrow> LinearScan \<Rightarrow> RefPosition \<Rightarrow> lsra_error + var_types" where
  "refSpillTyp tgt ls rp =
     (case getInterval rp of
        None \<Rightarrow> Inl NullDereference
      | Some i \<Rightarrow> spillTyp tgt ls (intervals ls i) rp)"

definition claimedSpilled :: "LsraTarget \<Rightarrow> LinearScan \<Rightarrow> var_types \<Rightarrow> RefPosition list \<Rightarrow> int" where
  "claimedSpilled tgt ls typ rps =
     int (length (filter (\<lambda>rp. refSpillTyp tgt ls rp = Inr typ \<and> spillAfter rp) rps))
     - int (length (filter (\<lambda>rp. refSpillTyp tgt ls rp = Inr typ \<and> reload rp) rps))"

definition claimedMaxSpill :: "LsraTarget \<Rightarrow> LinearScan \<Rightarrow> var_types \<Rightarrow> RefPosition list \<Rightarrow> int" where
  "claimedMaxSpill tgt ls typ rps =
     Max (set (map (\<lambda>k. claimedSpilled tgt ls typ (take k rps)) [0..<Suc (length rps)]))"

text \<open>
  The count restricted to what the code counts: RefPositions of Intervals that are not local
  variables; a spill is \<^verbatim>\<open>spillAfter\<close> without \<^verbatim>\<open>reload\<close>, and a spilled value stops being
  counted at a \<^verbatim>\<open>reload\<close> or at a RegOptional RefPosition that got no register.
\<close>

definition skippedUpperVector :: "LsraTarget \<Rightarrow> RefPosition \<Rightarrow> bool" where
  "skippedUpperVector tgt rp =
     (FEATURE_PARTIAL_SIMD_CALLEE_SAVE tgt
      \<and> (refType rp = RefTypeUpperVectorSave \<or> refType rp = RefTypeUpperVectorRestore))"

definition refIsLocalVar :: "LinearScan \<Rightarrow> RefPosition \<Rightarrow> bool" where
  "refIsLocalVar ls rp = (case getInterval rp of None \<Rightarrow> False | Some i \<Rightarrow> isLocalVar (intervals ls i))"

definition tempSpillDelta :: "LsraTarget \<Rightarrow> LinearScan \<Rightarrow> var_types \<Rightarrow> RefPosition \<Rightarrow> int" where
  "tempSpillDelta tgt ls typ rp =
     (if skippedUpperVector tgt rp \<or> refIsLocalVar ls rp \<or> refSpillTyp tgt ls rp \<noteq> Inr typ then 0
      else if spillAfter rp \<and> \<not> reload rp then 1
      else if reload rp \<or> (RegOptional rp \<and> assignedRegNA rp) then - 1
      else 0)"

definition tempSpilled :: "LsraTarget \<Rightarrow> LinearScan \<Rightarrow> var_types \<Rightarrow> RefPosition list \<Rightarrow> int" where
  "tempSpilled tgt ls typ rps = sum_list (map (tempSpillDelta tgt ls typ) rps)"

definition trueMaxTempSpill :: "LsraTarget \<Rightarrow> LinearScan \<Rightarrow> var_types \<Rightarrow> RefPosition list \<Rightarrow> int" where
  "trueMaxTempSpill tgt ls typ rps =
     Max (set (map (\<lambda>k. tempSpilled tgt ls typ (take k rps)) [0..<Suc (length rps)]))"

text \<open>A RefPosition with an Interval whose spill type can be computed (a tree node is at hand).\<close>

definition typed :: "LsraTarget \<Rightarrow> LinearScan \<Rightarrow> RefPosition \<Rightarrow> bool" where
  "typed tgt ls rp = (case refSpillTyp tgt ls rp of Inl _ \<Rightarrow> False | Inr _ \<Rightarrow> True)"

text \<open>The same maximum when the count starts from \<open>c\<close> instead of zero.\<close>

definition prefixMax :: "LsraTarget \<Rightarrow> LinearScan \<Rightarrow> var_types \<Rightarrow> int \<Rightarrow> RefPosition list \<Rightarrow> int" where
  "prefixMax tgt ls typ c rps =
     Max (set (map (\<lambda>k. c + tempSpilled tgt ls typ (take k rps)) [0..<Suc (length rps)]))"

text \<open>\<^verbatim>\<open>updateMaxSpill\<close> follows no null pointer on this RefPosition, whatever the counters are.\<close>

definition spillRefOk :: "LsraTarget \<Rightarrow> LinearScan \<Rightarrow> RefPosition \<Rightarrow> bool" where
  "spillRefOk tgt ls rp = (case updateMaxSpill tgt ls rp initMaxSpill of Inl _ \<Rightarrow> False | Inr _ \<Rightarrow> True)"

text \<open>
  The temporary that an x86 target adds for moving a double or float call or return value
  between an xmm register and the x87 stack.
\<close>

definition extraSpillTemp :: "LsraTarget \<Rightarrow> SpillTempNeeds \<Rightarrow> var_types \<Rightarrow> int" where
  "extraSpillTemp tgt needs typ =
     (if TARGET_X86 tgt
         \<and> ((typ = TYP_DOUBLE
               \<and> (needDoubleTmpForFPCall needs \<or> tmpNormalizeType tgt (compRetType needs) = TYP_DOUBLE))
              \<or> (typ = TYP_FLOAT
                  \<and> (needFloatTmpForFPCall needs \<or> tmpNormalizeType tgt (compRetType needs) = TYP_FLOAT)))
      then 1 else 0)"


subsection \<open>Queries on RefPositions, Intervals and RegRecords\<close>

definition getNextRefPosition :: "LinearScan \<Rightarrow> 'a Referenceable_scheme \<Rightarrow> nat option" where
  "getNextRefPosition ls r =
     (case recentRefPosition r of
        None \<Rightarrow> firstRefPosition r
      | Some p \<Rightarrow> nextRefPosition (refPositions ls p))"

definition getNextRefLocation :: "LinearScan \<Rightarrow> 'a Referenceable_scheme \<Rightarrow> LsraLocation" where
  "getNextRefLocation ls r =
     (case getNextRefPosition ls r of
        None \<Rightarrow> MaxLocation
      | Some p \<Rightarrow> nodeLocation (refPositions ls p))"

definition conflictingFixedRegReference :: "LinearScan \<Rightarrow> RegRecord \<Rightarrow> RefPosition \<Rightarrow> bool" where
  "conflictingFixedRegReference ls regRec refPosition =
     (if isFixedRefOfReg refPosition (regNum regRec) then False
      else if (case recentRefPosition regRec of
                 None \<Rightarrow> False
               | Some p \<Rightarrow>
                   refType (refPositions ls p) \<noteq> RefTypeKill
                   \<and> nodeLocation (refPositions ls p) = nodeLocation refPosition
                   \<and> (\<not> isBusyUntilNextKill regRec \<or> assignedInterval regRec \<noteq> getInterval refPosition))
      then True
      else (let nextPhysRefLocation = getNextRefLocation ls regRec
            in nextPhysRefLocation = nodeLocation refPosition
               \<or> (delayRegFree refPosition \<and> nextPhysRefLocation = nodeLocation refPosition + 1)))"

definition isRefPositionActive :: "RefPosition \<Rightarrow> LsraLocation \<Rightarrow> bool" where
  "isRefPositionActive refPosition refLocation =
     (nodeLocation refPosition = refLocation
      \<or> (nodeLocation refPosition + 1 = refLocation \<and> delayRegFree refPosition))"

text \<open>\<^verbatim>\<open>getWeight\<close> (lines 172-215), in unsigned 32-bit arithmetic.\<close>

definition getWeight :: "LsraTarget \<Rightarrow> LinearScan \<Rightarrow> RefPosition \<Rightarrow> lsra_error + 32 word" where
  "getWeight tgt ls refPos =
     (case treeNode refPos of
        Some t \<Rightarrow>
          (if isCandidateLocalRef (trees ls t)
           then (case getInterval refPos of
                   None \<Rightarrow> Inl NullDereference
                 | Some i \<Rightarrow>
                     Inr (if isSpilled (intervals ls i)
                          then lvRefCntWtd (trees ls t) - BB_UNITY_WEIGHT tgt
                          else lvRefCntWtd (trees ls t)))
           else Inr (2 * 2 * blockInfoWeight ls (bbNum refPos)))
      | None \<Rightarrow> Inr (blockInfoWeight ls (bbNum refPos)))"

text \<open>
  \<^verbatim>\<open>canSpillReg\<close>: the result and the value left in the out-parameter
  \<^verbatim>\<open>recentAssignedRefWeight\<close>, whose value at the call is \<open>w0\<close>.
\<close>

definition canSpillReg ::
  "LsraTarget \<Rightarrow> LinearScan \<Rightarrow> RegRecord \<Rightarrow> LsraLocation \<Rightarrow> 32 word \<Rightarrow> lsra_error + (bool \<times> 32 word)" where
  "canSpillReg tgt ls physRegRecord refLocation w0 =
     (case assignedInterval physRegRecord of
        None \<Rightarrow> Inl NullDereference
      | Some ai \<Rightarrow>
          (case recentRefPosition (intervals ls ai) of
             None \<Rightarrow> Inr (True, w0)
           | Some p \<Rightarrow>
               (if isRefPositionActive (refPositions ls p) refLocation then Inr (False, w0)
                else (case getWeight tgt ls (refPositions ls p) of
                        Inl e \<Rightarrow> Inl e
                      | Inr w \<Rightarrow> Inr (True, w)))))"

definition isRegInUse :: "LinearScan \<Rightarrow> RegRecord \<Rightarrow> RefPosition \<Rightarrow> lsra_error + bool" where
  "isRegInUse ls regRec refPosition =
     (case assignedInterval regRec of
        None \<Rightarrow> Inr False
      | Some ai \<Rightarrow>
          (if \<not> isActive (intervals ls ai)
           then (case recentRefPosition (intervals ls ai) of
                   None \<Rightarrow> Inl NullDereference
                 | Some p \<Rightarrow> Inr True)
           else (case getNextRefPosition ls (intervals ls ai) of
                   None \<Rightarrow> Inr False
                 | Some n \<Rightarrow>
                     Inr (isRefPositionActive (refPositions ls n) (nodeLocation refPosition)
                          \<and> \<not> RegOptional (refPositions ls n)))))"

text \<open>
  \<^verbatim>\<open>isSpillCandidate\<close>: the result and the value left in the reference parameter
  \<^verbatim>\<open>nextLocation\<close>, whose value at the call is \<open>l0\<close>.
\<close>

definition isSpillCandidate ::
  "LinearScan \<Rightarrow> RefPosition \<Rightarrow> RegRecord \<Rightarrow> LsraLocation \<Rightarrow> lsra_error + (bool \<times> LsraLocation)" where
  "isSpillCandidate ls refPosition physRegRecord l0 =
     (if isBusyUntilNextKill physRegRecord then Inr (False, l0)
      else
        (let nextLocation =
               (case assignedInterval physRegRecord of
                  None \<Rightarrow> l0
                | Some ai \<Rightarrow> getNextRefLocation ls (intervals ls ai))
         in if conflictingFixedRegReference ls physRegRecord refPosition then Inr (False, nextLocation)
            else if isFixedRefOfReg refPosition (regNum physRegRecord) then Inr (True, nextLocation)
            else if assignedInterval physRegRecord = None then Inr (False, nextLocation)
            else (case isRegInUse ls physRegRecord refPosition of
                    Inl e \<Rightarrow> Inl e
                  | Inr inUse \<Rightarrow> Inr (\<not> inUse, nextLocation))))"

subsection \<open>Spilling an Interval and assigning a register\<close>

definition setIntervalAsSpilled :: "LsraTarget \<Rightarrow> LinearScan \<Rightarrow> nat \<Rightarrow> lsra_error + LinearScan" where
  "setIntervalAsSpilled tgt ls i0 =
     (let upper = FEATURE_PARTIAL_SIMD_CALLEE_SAVE tgt \<and> isUpperVector (intervals ls i0);
          ls1 = (if upper
                 then ls\<lparr> intervals := (intervals ls)(i0 := (intervals ls i0)\<lparr> isSpilled := True \<rparr>) \<rparr>
                 else ls)
      in case (if upper then relatedInterval (intervals ls i0) else Some i0) of
           None \<Rightarrow> Inl NullDereference
         | Some i \<Rightarrow>
             (let ls2 = (if isLocalVar (intervals ls1 i) \<and> \<not> isSpilled (intervals ls1 i)
                         then ls1\<lparr> splitOrSpilledVars :=
                                insert (lvVarIndex ls1 (varNum (intervals ls1 i))) (splitOrSpilledVars ls1) \<rparr>
                         else ls1)
              in Inr (ls2\<lparr> intervals := (intervals ls2)(i := (intervals ls2 i)\<lparr> isSpilled := True \<rparr>) \<rparr>)))"

definition setInVarRegForBB :: "LinearScan \<Rightarrow> nat \<Rightarrow> nat \<Rightarrow> regNumber \<Rightarrow> LinearScan" where
  "setInVarRegForBB ls bb vnum reg =
     ls\<lparr> inVarToRegMaps := (inVarToRegMaps ls)(bb := (inVarToRegMaps ls bb)(lvVarIndex ls vnum := reg)) \<rparr>"

definition spillInterval :: "LsraTarget \<Rightarrow> LinearScan \<Rightarrow> nat \<Rightarrow> nat \<Rightarrow> lsra_error + LinearScan" where
  "spillInterval tgt ls i fromRef =
     (let from = refPositions ls fromRef;
          ls1 = (if \<not> lastUse from
                 then (if RegOptional from \<and> \<not> (isLocalVar (intervals ls i) \<and> IsActualRef from)
                       then ls\<lparr> refPositions := (refPositions ls)(fromRef := from\<lparr> registerAssignment := RBM_NONE \<rparr>) \<rparr>
                       else ls\<lparr> refPositions := (refPositions ls)(fromRef := from\<lparr> spillAfter := True \<rparr>) \<rparr>)
                 else ls);
          ls2 = ls1\<lparr> intervals := (intervals ls1)(i := (intervals ls1 i)\<lparr> isActive := False \<rparr>) \<rparr>
      in case setIntervalAsSpilled tgt ls2 i of
           Inl e \<Rightarrow> Inl e
         | Inr ls3 \<Rightarrow>
             Inr (if nodeLocation from \<le> curBBStartLocation ls3
                  then setInVarRegForBB ls3 (curBBNum ls3) (varNum (intervals ls3 i)) REG_STK
                  else ls3))"

definition canRestorePreviousInterval :: "LinearScan \<Rightarrow> nat \<Rightarrow> nat \<Rightarrow> bool" where
  "canRestorePreviousInterval ls r ai =
     (case previousInterval (physRegs ls r) of
        None \<Rightarrow> False
      | Some p \<Rightarrow>
          p \<noteq> ai \<and> assignedReg (intervals ls p) = Some r
          \<and> getNextRefPosition ls (intervals ls p) \<noteq> None)"

text \<open>
  \<^verbatim>\<open>unassignPhysReg(regRec, spillRefPosition)\<close> (lines 4215-4380), with
  \<^verbatim>\<open>checkAndClearInterval\<close>, \<^verbatim>\<open>updateAssignedInterval\<close> and \<^verbatim>\<open>updatePreviousInterval\<close>
  inlined: each is one assignment on this target.
\<close>

definition unassignPhysReg ::
  "LsraTarget \<Rightarrow> LinearScan \<Rightarrow> nat \<Rightarrow> nat option \<Rightarrow> lsra_error + LinearScan" where
  "unassignPhysReg tgt ls r spillRefPosition =
     (case assignedInterval (physRegs ls r) of
        None \<Rightarrow> Inl NullDereference
      | Some ai \<Rightarrow>
          (let thisRegNum = regNum (physRegs ls r);
               intervalIsAssigned = (physReg (intervals ls ai) = REG thisRegNum);
               ls1 = ls\<lparr> physRegs := (physRegs ls)(r := (physRegs ls r)\<lparr> assignedInterval := None \<rparr>) \<rparr>;
               nextRef = (case spillRefPosition of
                            None \<Rightarrow> None
                          | Some p \<Rightarrow> nextRefPosition (refPositions ls1 p))
           in if \<not> intervalIsAssigned \<and> physReg (intervals ls1 ai) \<noteq> REG_NA then Inr ls1
              else
                (let ls2 = ls1\<lparr> intervals := (intervals ls1)(ai := (intervals ls1 ai)\<lparr> physReg := REG_NA \<rparr>) \<rparr>;
                     spill = (isActive (intervals ls2 ai) \<and> nextRef \<noteq> None)
                 in case (if spill
                          then (case spillRefPosition of
                                  None \<Rightarrow> Inl NullDereference
                                | Some p \<Rightarrow> spillInterval tgt ls2 ai p)
                          else Inr ls2) of
                      Inl e \<Rightarrow> Inl e
                    | Inr ls3 \<Rightarrow>
                        Inr (if nextRef \<noteq> None
                             then ls3\<lparr> intervals := (intervals ls3)(ai := (intervals ls3 ai)\<lparr> assignedReg := Some r \<rparr>) \<rparr>
                             else if canRestorePreviousInterval ls3 r ai
                             then ls3\<lparr> physRegs := (physRegs ls3)(r := (physRegs ls3 r)
                                      \<lparr> assignedInterval := previousInterval (physRegs ls3 r),
                                        previousInterval := None \<rparr>) \<rparr>
                             else ls3\<lparr> physRegs := (physRegs ls3)(r := (physRegs ls3 r)
                                      \<lparr> assignedInterval := None, previousInterval := None \<rparr>) \<rparr>))))"

text \<open>
  \<^verbatim>\<open>assignPhysReg\<close> with \<^verbatim>\<open>checkAndAssignInterval\<close> (lines 3891-3950).  The overload
  \<^verbatim>\<open>unassignPhysReg(regNumber)\<close> of lsra.h unassigns the RegRecord of that number with no
  spill RefPosition.
\<close>

definition checkAndAssignInterval ::
  "LsraTarget \<Rightarrow> LinearScan \<Rightarrow> nat \<Rightarrow> nat \<Rightarrow> lsra_error + LinearScan" where
  "checkAndAssignInterval tgt ls r interval =
     (case (case assignedInterval (physRegs ls r) of
              None \<Rightarrow> Inr ls
            | Some a \<Rightarrow>
                (if a \<noteq> interval
                 then unassignPhysReg tgt
                        (if assignedReg (intervals ls a) = Some r
                         then ls\<lparr> intervals := (intervals ls)(a := (intervals ls a)\<lparr> physReg := REG_NA \<rparr>) \<rparr>
                         else ls)
                        (regNum (physRegs ls r)) None
                 else Inr ls)) of
        Inl e \<Rightarrow> Inl e
      | Inr ls1 \<Rightarrow>
          Inr (ls1\<lparr> physRegs := (physRegs ls1)(r := (physRegs ls1 r)\<lparr> assignedInterval := Some interval \<rparr>) \<rparr>))"

definition assignPhysReg :: "LsraTarget \<Rightarrow> LinearScan \<Rightarrow> nat \<Rightarrow> nat \<Rightarrow> lsra_error + LinearScan" where
  "assignPhysReg tgt ls r interval =
     (case checkAndAssignInterval tgt ls r interval of
        Inl e \<Rightarrow> Inl e
      | Inr ls1 \<Rightarrow>
          (let iv = (intervals ls1 interval)
                      \<lparr> isActive := True, assignedReg := Some r, physReg := REG (regNum (physRegs ls1 r)) \<rparr>;
               iv' = (if isLocalVar iv
                      then iv\<lparr> registerPreferences :=
                              updateRegisterPreferences tgt iv (genRegMask (regNum (physRegs ls1 r))) \<rparr>
                      else iv)
           in Inr (ls1\<lparr> intervals := (intervals ls1)(interval := iv') \<rparr>)))"

subsection \<open>\<^verbatim>\<open>allocateBusyReg\<close>: choosing the register to spill\<close>

text \<open>
  The locals of the search loop (lines 3530-3552): the best RegRecord so far, the location of
  its next reference and the weight of the RefPosition that would be spilled.
\<close>

record BusyRegSearch =
  farthestRefPhysRegRecord :: "nat option"
  farthestLocation :: LsraLocation
  farthestRefPosWeight :: "32 word"

definition Registers :: "LsraTarget \<Rightarrow> var_types \<Rightarrow> nat list" where
  "Registers tgt regType =
     (if useFloatReg tgt regType then [REG_FP_FIRST tgt ..< Suc (REG_FP_LAST tgt)]
      else [REG_INT_FIRST tgt ..< Suc (REG_INT_LAST tgt)])"

text \<open>One iteration of the loop over \<^verbatim>\<open>Registers(regType)\<close> (lines 3554-3686).\<close>

definition allocateBusyReg_step ::
  "LsraTarget \<Rightarrow> LinearScan \<Rightarrow> RefPosition \<Rightarrow> bool \<Rightarrow> regMaskTP \<Rightarrow> nat \<Rightarrow> BusyRegSearch
     \<Rightarrow> lsra_error + BusyRegSearch" where
  "allocateBusyReg_step tgt ls refPosition allocateIfProfitable candidates rn st =
     (if candidates AND genRegMask rn = 0 then Inr st
      else
        (let physRegRecord = physRegs ls rn
         in case isSpillCandidate ls refPosition physRegRecord MinLocation of
              Inl e \<Rightarrow> Inl e
            | Inr (False, nextLocation) \<Rightarrow> Inr st
            | Inr (True, nextLocation) \<Rightarrow>
                (case canSpillReg tgt ls physRegRecord (nodeLocation refPosition) (BB_ZERO_WEIGHT tgt) of
                   Inl e \<Rightarrow> Inl e
                 | Inr (False, w) \<Rightarrow> Inr st
                 | Inr (True, recentAssignedRefWeight) \<Rightarrow>
                     (if farthestRefPosWeight st < recentAssignedRefWeight then Inr st
                      else
                        (let recentAssignedRef =
                               (case assignedInterval physRegRecord of
                                  None \<Rightarrow> None
                                | Some ai \<Rightarrow> recentRefPosition (intervals ls ai));
                             physRegNextLocation = getNextRefLocation ls physRegRecord;
                             nextLocation' = (if physRegNextLocation < nextLocation
                                              then physRegNextLocation else nextLocation);
                             isBetterLocation =
                               (if recentAssignedRefWeight < farthestRefPosWeight st then True
                                else if allocateIfProfitable \<and> farthestRefPhysRegRecord st = None then False
                                else if farthestLocation st < nextLocation' then True
                                else if nextLocation' = farthestLocation st
                                then (case recentAssignedRef of
                                        None \<Rightarrow> False
                                      | Some p \<Rightarrow> reload (refPositions ls p) \<and> RegOptional (refPositions ls p))
                                else False)
                         in Inr (if isBetterLocation
                                 then \<lparr> farthestRefPhysRegRecord = Some rn,
                                        farthestLocation = nextLocation',
                                        farthestRefPosWeight = recentAssignedRefWeight \<rparr>
                                 else st))))))"

fun allocateBusyReg_loop ::
  "LsraTarget \<Rightarrow> LinearScan \<Rightarrow> RefPosition \<Rightarrow> bool \<Rightarrow> regMaskTP \<Rightarrow> nat list \<Rightarrow> BusyRegSearch
     \<Rightarrow> lsra_error + BusyRegSearch" where
  "allocateBusyReg_loop tgt ls refPosition aip candidates [] st = Inr st"
| "allocateBusyReg_loop tgt ls refPosition aip candidates (rn # rns) st =
     (case allocateBusyReg_step tgt ls refPosition aip candidates rn st of
        Inl e \<Rightarrow> Inl e
      | Inr st' \<Rightarrow> allocateBusyReg_loop tgt ls refPosition aip candidates rns st')"

text \<open>The search of \<^verbatim>\<open>allocateBusyReg\<close>: lines 3506-3686.\<close>

definition busyCandidates :: "LinearScan \<Rightarrow> nat \<Rightarrow> nat \<Rightarrow> regMaskTP" where
  "busyCandidates ls current rp =
     (if registerAssignment (refPositions ls rp) = RBM_NONE
      then allRegs ls (registerType (intervals ls current))
      else registerAssignment (refPositions ls rp))"

definition allocateBusyReg_search ::
  "LsraTarget \<Rightarrow> LinearScan \<Rightarrow> nat \<Rightarrow> nat \<Rightarrow> bool \<Rightarrow> lsra_error + BusyRegSearch" where
  "allocateBusyReg_search tgt ls current rp allocateIfProfitable =
     (let refPosition = refPositions ls rp;
          regType = registerType (intervals ls current);
          candidates = busyCandidates ls current rp;
          st0 = \<lparr> farthestRefPhysRegRecord = None, farthestLocation = MinLocation,
                  farthestRefPosWeight = BB_MAX_WEIGHT tgt \<rparr>
      in if allocateIfProfitable
         then (case getWeight tgt ls refPosition of
                 Inl e \<Rightarrow> Inl e
               | Inr w \<Rightarrow>
                   allocateBusyReg_loop tgt ls refPosition allocateIfProfitable candidates
                     (Registers tgt regType) (st0\<lparr> farthestRefPosWeight := w \<rparr>))
         else allocateBusyReg_loop tgt ls refPosition allocateIfProfitable candidates
                (Registers tgt regType) st0)"

text \<open>
  \<^verbatim>\<open>allocateBusyReg\<close>: the register found (or \<^verbatim>\<open>REG_NA\<close>) and the state in which the occupant
  of that register is unassigned and spilled and the register is assigned to \<open>current\<close>.
\<close>

definition allocateBusyReg ::
  "LsraTarget \<Rightarrow> LinearScan \<Rightarrow> nat \<Rightarrow> nat \<Rightarrow> bool \<Rightarrow> lsra_error + (regNumber \<times> LinearScan)" where
  "allocateBusyReg tgt ls current rp allocateIfProfitable =
     (case allocateBusyReg_search tgt ls current rp allocateIfProfitable of
        Inl e \<Rightarrow> Inl e
      | Inr st \<Rightarrow>
          (case farthestRefPhysRegRecord st of
             None \<Rightarrow>
               Inr (REG_NA,
                    ls\<lparr> refPositions := (refPositions ls)(rp := (refPositions ls rp)\<lparr> registerAssignment := RBM_NONE \<rparr>) \<rparr>)
           | Some r \<Rightarrow>
               (case assignedInterval (physRegs ls r) of
                  None \<Rightarrow> Inl NullDereference
                | Some victim \<Rightarrow>
                    (case unassignPhysReg tgt ls r (recentRefPosition (intervals ls victim)) of
                       Inl e \<Rightarrow> Inl e
                     | Inr ls1 \<Rightarrow>
                         (case assignPhysReg tgt ls1 r current of
                            Inl e \<Rightarrow> Inl e
                          | Inr ls2 \<Rightarrow>
                              Inr (REG (regNum (physRegs ls2 r)),
                                   ls2\<lparr> refPositions := (refPositions ls2)
                                          (rp := (refPositions ls2 rp)
                                             \<lparr> registerAssignment := genRegMask (regNum (physRegs ls2 r)) \<rparr>) \<rparr>))))))"

subsection \<open>\<^verbatim>\<open>allocateRegisters\<close>: a RefPosition that is not yet in a register\<close>

text \<open>
  Lines 5685-5768 of the loop of \<^verbatim>\<open>allocateRegisters\<close>, entered with
  \<^verbatim>\<open>assignedRegister == REG_NA\<close>.  \<^verbatim>\<open>tryAllocateFreeReg\<close> is a parameter here (its embedding
  comes below): it returns the register it found (or \<^verbatim>\<open>REG_NA\<close>) and the state it leaves, or
  \<open>None\<close> when it does not return.  The result is the register assigned and the new state; a
  failing \<^verbatim>\<open>noway_assert\<close> is the error \<open>NowayAssert\<close>.
  The conditions on \<^verbatim>\<open>RefTypeUpperVectorRestore\<close> are those of an x86/x64 target.
\<close>

definition wantsAllocation :: "LsraTarget \<Rightarrow> LinearScan \<Rightarrow> nat \<Rightarrow> nat \<Rightarrow> bool" where
  "wantsAllocation tgt ls currentInterval rp =
     (let currentRefPosition = refPositions ls rp
      in if RegOptional currentRefPosition
         then \<not> (lastUse currentRefPosition \<and> reload currentRefPosition)
              \<and> \<not> (FEATURE_PARTIAL_SIMD_CALLEE_SAVE tgt
                    \<and> refType currentRefPosition = RefTypeUpperVectorRestore
                    \<and> physReg (intervals ls currentInterval) = REG_NA)
         else True)"

definition allocateUnassigned ::
  "LsraTarget \<Rightarrow> (LinearScan \<Rightarrow> nat \<Rightarrow> nat \<Rightarrow> (lsra_error + (regNumber \<times> LinearScan)) option)
     \<Rightarrow> LinearScan \<Rightarrow> nat \<Rightarrow> nat \<Rightarrow> (lsra_error + (regNumber \<times> LinearScan)) option" where
  "allocateUnassigned tgt tryAllocateFreeReg ls currentInterval rp =
     (let allocateReg = wantsAllocation tgt ls currentInterval rp
      in case (if allocateReg then tryAllocateFreeReg ls currentInterval rp else Some (Inr (REG_NA, ls))) of
           None \<Rightarrow> None
         | Some (Inl e) \<Rightarrow> Some (Inl e)
         | Some (Inr (assignedRegister, ls1)) \<Rightarrow>
             Some
             (if assignedRegister \<noteq> REG_NA then Inr (assignedRegister, ls1)
              else if IsActualRef (refPositions ls1 rp)
              then
                (case (if allocateReg
                       then allocateBusyReg tgt ls1 currentInterval rp (RegOptional (refPositions ls1 rp))
                       else Inr (REG_NA, ls1)) of
                   Inl e \<Rightarrow> Inl e
                 | Inr (assignedRegister', ls2) \<Rightarrow>
                     (if assignedRegister' \<noteq> REG_NA then Inr (assignedRegister', ls2)
                      else if \<not> RegOptional (refPositions ls2 rp) then Inl NowayAssert
                      else
                        (case setIntervalAsSpilled tgt
                                (ls2\<lparr> refPositions := (refPositions ls2)
                                        (rp := (refPositions ls2 rp)
                                           \<lparr> registerAssignment := RBM_NONE, reload := False \<rparr>) \<rparr>)
                                currentInterval of
                           Inl e \<Rightarrow> Inl e
                         | Inr ls3 \<Rightarrow> Inr (REG_NA, ls3))))
              else
                (case setIntervalAsSpilled tgt
                        (ls1\<lparr> refPositions := (refPositions ls1)
                                (rp := (refPositions ls1 rp)\<lparr> registerAssignment := RBM_NONE \<rparr>),
                              intervals := (intervals ls1)
                                (currentInterval := (intervals ls1 currentInterval)\<lparr> isActive := False \<rparr>) \<rparr>)
                        currentInterval of
                   Inl e \<Rightarrow> Inl e
                 | Inr ls3 \<Rightarrow> Inr (REG_NA, ls3))))"



subsection \<open>What one register contributes to the search of \<^verbatim>\<open>allocateBusyReg\<close>\<close>

text \<open>
  A register is skipped, or it is a candidate with the weight of the recent RefPosition of its
  occupant, the location of its next reference (the earlier of the next reference of the
  occupant and the next reference of the physical register itself), and the flag that this
  recent RefPosition is a RegOptional reload; evaluating it can also dereference a null
  pointer.
\<close>

datatype candEval = CandError lsra_error | CandSkip | Cand "32 word" LsraLocation bool

definition evalCandidate ::
  "LsraTarget \<Rightarrow> LinearScan \<Rightarrow> RefPosition \<Rightarrow> regMaskTP \<Rightarrow> nat \<Rightarrow> candEval" where
  "evalCandidate tgt ls refPosition candidates rn =
     (if candidates AND genRegMask rn = 0 then CandSkip
      else
        (case isSpillCandidate ls refPosition (physRegs ls rn) MinLocation of
           Inl e \<Rightarrow> CandError e
         | Inr (False, nextLocation) \<Rightarrow> CandSkip
         | Inr (True, nextLocation) \<Rightarrow>
             (case canSpillReg tgt ls (physRegs ls rn) (nodeLocation refPosition) (BB_ZERO_WEIGHT tgt) of
                Inl e \<Rightarrow> CandError e
              | Inr (False, w) \<Rightarrow> CandSkip
              | Inr (True, w) \<Rightarrow>
                  Cand w
                    (if getNextRefLocation ls (physRegs ls rn) < nextLocation
                     then getNextRefLocation ls (physRegs ls rn) else nextLocation)
                    (case assignedInterval (physRegs ls rn) of
                       None \<Rightarrow> False
                     | Some ai \<Rightarrow>
                         (case recentRefPosition (intervals ls ai) of
                            None \<Rightarrow> False
                          | Some p \<Rightarrow> reload (refPositions ls p) \<and> RegOptional (refPositions ls p))))))"

text \<open>The comparison of a candidate with the best one so far.\<close>

definition considerCandidate :: "bool \<Rightarrow> nat \<Rightarrow> 32 word \<Rightarrow> LsraLocation \<Rightarrow> bool \<Rightarrow> BusyRegSearch \<Rightarrow> BusyRegSearch" where
  "considerCandidate aip rn w l p st =
     (if farthestRefPosWeight st < w then st
      else if (if w < farthestRefPosWeight st then True
               else if aip \<and> farthestRefPhysRegRecord st = None then False
               else if farthestLocation st < l then True
               else if l = farthestLocation st then p
               else False)
      then \<lparr> farthestRefPhysRegRecord = Some rn, farthestLocation = l, farthestRefPosWeight = w \<rparr>
      else st)"

text \<open>The candidates among a list of registers, and the registers on which the search fails.\<close>

definition isCand :: "candEval \<Rightarrow> bool" where
  "isCand c = (case c of Cand w l p \<Rightarrow> True | _ \<Rightarrow> False)"

definition isCandError :: "candEval \<Rightarrow> bool" where
  "isCandError c = (case c of CandError e \<Rightarrow> True | _ \<Rightarrow> False)"

definition candWeight :: "candEval \<Rightarrow> 32 word" where
  "candWeight c = (case c of Cand w l p \<Rightarrow> w | _ \<Rightarrow> 0)"





text \<open>
  The reading of ``no profitable spill candidate'': no register of the class is a spill
  candidate, except that for a RegOptional reference there may be spill candidates whose
  occupant has a recent reference of a weight that exceeds the weight of the reference
  itself.
\<close>

definition noProfitableSpillCandidate :: "LsraTarget \<Rightarrow> LinearScan \<Rightarrow> nat \<Rightarrow> nat \<Rightarrow> bool" where
  "noProfitableSpillCandidate tgt ls current rp =
     (\<forall>rn \<in> set (Registers tgt (registerType (intervals ls current))).
        case evalCandidate tgt ls (refPositions ls rp) (busyCandidates ls current rp) rn of
          Cand w l p \<Rightarrow>
            RegOptional (refPositions ls rp)
            \<and> (case getWeight tgt ls (refPositions ls rp) of
                  Inl e \<Rightarrow> False
                | Inr own \<Rightarrow> own < w)
        | _ \<Rightarrow> True)"

text \<open>
  The test under which the write-back pass takes the value of a RefPosition as used from its
  memory location (\<^verbatim>\<open>updateMaxSpill\<close>, lines 6780-6788): it is RegOptional and has no register.
\<close>

definition usedFromMemory :: "RefPosition \<Rightarrow> bool" where
  "usedFromMemory rp = (RegOptional rp \<and> assignedRegNA rp)"

text \<open>What a run of the allocation yields: the register, or the error.\<close>

definition allocationError :: "(lsra_error + (regNumber \<times> LinearScan)) option \<Rightarrow> lsra_error option" where
  "allocationError x = (case x of Some (Inl e) \<Rightarrow> Some e | _ \<Rightarrow> None)"


subsection \<open>\<^verbatim>\<open>tryAllocateFreeReg\<close>: availability of a register\<close>

definition copyOrMoveRegInUse :: "LinearScan \<Rightarrow> RefPosition \<Rightarrow> LsraLocation \<Rightarrow> lsra_error + bool" where
  "copyOrMoveRegInUse ls ref loc =
     (if \<not> copyReg ref \<and> \<not> moveReg ref then Inr False
      else if loc \<le> getRefEndLocation ref then Inr True
      else (case getInterval ref of
              None \<Rightarrow> Inl NullDereference
            | Some i \<Rightarrow>
                (case getNextRefPosition ls (intervals ls i) of
                   None \<Rightarrow> Inr False
                 | Some n \<Rightarrow>
                     Inr (treeNode (refPositions ls n) = treeNode ref
                          \<and> loc \<le> getRefEndLocation (refPositions ls n)))))"

text \<open>
  \<^verbatim>\<open>registerIsAvailable\<close> (lines 2454-2559): the result and the value left in
  \<^verbatim>\<open>*nextRefLocationPtr\<close>.
\<close>

definition registerIsAvailable ::
  "LinearScan \<Rightarrow> RegRecord \<Rightarrow> LsraLocation \<Rightarrow> lsra_error + (bool \<times> LsraLocation)" where
  "registerIsAvailable ls physRegRecord currentLoc =
     (if isBusyUntilNextKill physRegRecord then Inr (False, MaxLocation)
      else
        (let nextRefLocation0 =
               (case getNextRefPosition ls physRegRecord of
                  Some p \<Rightarrow> nodeLocation (refPositions ls p)
                | None \<Rightarrow> (if \<not> isCalleeSave physRegRecord then MaxLocation - 1 else MaxLocation));
             finish = (\<lambda>nextRefLocation.
                         Inr (currentLoc \<le> nextRefLocation,
                              if nextRefLocation < MaxLocation then nextRefLocation else MaxLocation))
         in case assignedInterval physRegRecord of
              None \<Rightarrow> finish nextRefLocation0
            | Some a \<Rightarrow>
                (case recentRefPosition (intervals ls a) of
                   None \<Rightarrow> Inr (False, MaxLocation)
                 | Some rr \<Rightarrow>
                     (let recentReference = refPositions ls rr
                      in if \<not> isAssignedTo (intervals ls a) (regNum physRegRecord)
                         then
                           (if registerAssignment recentReference = genRegMask (regNum physRegRecord)
                            then (case copyOrMoveRegInUse ls recentReference currentLoc of
                                    Inl e \<Rightarrow> Inl e
                                  | Inr inUse \<Rightarrow>
                                      (if inUse then Inr (False, MaxLocation) else finish nextRefLocation0))
                            else finish nextRefLocation0)
                         else if \<not> isActive (intervals ls a) \<and> isConstant (intervals ls a)
                         then finish nextRefLocation0
                         else if \<not> isActive (intervals ls a)
                                 \<and> (refType recentReference = RefTypeExpUse
                                      \<or> getRefEndLocation recentReference < currentLoc)
                         then
                           (case nextRefPosition recentReference of
                              Some n \<Rightarrow>
                                finish (if nodeLocation (refPositions ls n) < nextRefLocation0
                                        then nodeLocation (refPositions ls n) else nextRefLocation0)
                            | None \<Rightarrow> finish nextRefLocation0)
                         else Inr (False, MaxLocation)))))"

text \<open>\<^verbatim>\<open>isAssigned(regRec, lastLocation)\<close> (lines 3859-3886).\<close>

definition isAssigned :: "LinearScan \<Rightarrow> RegRecord \<Rightarrow> LsraLocation \<Rightarrow> bool" where
  "isAssigned ls regRec lastLocation =
     (case assignedInterval regRec of
        None \<Rightarrow> False
      | Some a \<Rightarrow> \<not> lastLocation < getNextRefLocation ls (intervals ls a))"

text \<open>\<^verbatim>\<open>isMatchingConstant\<close> (lines 2601-2650).\<close>

definition isMatchingConstant ::
  "LsraTarget \<Rightarrow> LinearScan \<Rightarrow> RegRecord \<Rightarrow> RefPosition \<Rightarrow> lsra_error + bool" where
  "isMatchingConstant tgt ls physRegRecord refPosition =
     (case assignedInterval physRegRecord of
        None \<Rightarrow> Inr False
      | Some a \<Rightarrow>
          (if \<not> isConstant (intervals ls a) then Inr False
           else (case treeNode refPosition of
                   None \<Rightarrow> Inl NowayAssert
                 | Some tn \<Rightarrow>
                     (case firstRefPosition (intervals ls a) of
                        None \<Rightarrow> Inl NullDereference
                      | Some f \<Rightarrow>
                          (case treeNode (refPositions ls f) of
                             None \<Rightarrow> Inl NowayAssert
                           | Some on \<Rightarrow>
                               (let t = trees ls tn; other = trees ls on
                                in Inr (OperGet t = OperGet other
                                        \<and> (case OperGet other of
                                              GT_CNS_INT \<Rightarrow>
                                                IconValue t = IconValue other
                                                \<and> varTypeGCtype t = varTypeGCtype other
                                                \<and> (if TARGET_64BIT tgt
                                                    then TypeGet t = TypeGet other \<or> 0 \<le> IconValue t
                                                    else True)
                                            | GT_CNS_DBL \<Rightarrow>
                                                DblConBits t = DblConBits other
                                                \<and> TypeGet t = TypeGet other
                                            | _ \<Rightarrow> False))))))))"

subsection \<open>\<^verbatim>\<open>tryAllocateFreeReg\<close>: scoring and selection (lines 2888-3128)\<close>

text \<open>The enumeration \<^verbatim>\<open>RegisterScore\<close>.\<close>

definition VALUE_AVAILABLE :: nat where "VALUE_AVAILABLE = 0x40"
definition COVERS :: nat where "COVERS = 0x20"
definition OWN_PREFERENCE :: nat where "OWN_PREFERENCE = 0x10"
definition COVERS_RELATED :: nat where "COVERS_RELATED = 0x08"
definition RELATED_PREFERENCE :: nat where "RELATED_PREFERENCE = 0x04"
definition CALLER_CALLEE :: nat where "CALLER_CALLEE = 0x02"
definition UNASSIGNED :: nat where "UNASSIGNED = 0x01"

text \<open>
  The locals that the first part of \<^verbatim>\<open>tryAllocateFreeReg\<close> (lines 2674-2886, the function
  \<open>tryAllocateFreeReg_locals\<close> below) hands to the selection: \<^verbatim>\<open>candidates\<close>,
  \<^verbatim>\<open>preferences\<close>, \<^verbatim>\<open>relatedPreferences\<close>, \<^verbatim>\<open>relatedInterval\<close>, \<^verbatim>\<open>rangeEndLocation\<close>,
  \<^verbatim>\<open>lastLocation\<close>, \<^verbatim>\<open>rangeEndRefPosition\<close>, \<^verbatim>\<open>preferCalleeSave\<close>, \<^verbatim>\<open>prevReg\<close> and
  \<^verbatim>\<open>regOrder\<close>.
\<close>

record FreeRegLocals =
  selCandidates :: regMaskTP
  selPreferences :: regMaskTP
  selRelatedPreferences :: regMaskTP
  selRelatedInterval :: "nat option"
  selRangeEndLocation :: LsraLocation
  selLastLocation :: LsraLocation
  selRangeEndRefPosition :: nat
  selPreferCalleeSave :: bool
  selPrevReg :: regNumber
  selRegOrder :: "nat list"

text \<open>The locals of the selection loop.\<close>

record FreeRegSearch =
  candidatesLeft :: regMaskTP
  bestScore :: nat
  bestLocation :: LsraLocation
  availablePhysRegInterval :: "nat option"
  unassignInterval :: bool

datatype loopExit = NoBreak | FoundHolder | FoundBestPossible

definition bestPossibleScore :: "FreeRegLocals \<Rightarrow> nat" where
  "bestPossibleScore sel =
     (if selRelatedPreferences sel \<noteq> RBM_NONE
      then (COVERS + UNASSIGNED + OWN_PREFERENCE + CALLER_CALLEE) OR (RELATED_PREFERENCE + COVERS_RELATED)
      else COVERS + UNASSIGNED + OWN_PREFERENCE + CALLER_CALLEE)"

text \<open>
  The next reference location of a register as the scoring sees it (lines 2996-3005), and
  the score of a register that is available from there on (lines 2989-3042).
\<close>

definition adjustedNextLocation :: "LinearScan \<Rightarrow> FreeRegLocals \<Rightarrow> nat \<Rightarrow> LsraLocation \<Rightarrow> LsraLocation" where
  "adjustedNextLocation ls sel rn nextPhysRefLocation =
     (if nextPhysRefLocation = selRangeEndLocation sel
         \<and> isFixedRefOfReg (refPositions ls (selRangeEndRefPosition sel)) rn
      then nextPhysRefLocation + 1 else nextPhysRefLocation)"

definition registerScore ::
  "LsraTarget \<Rightarrow> LinearScan \<Rightarrow> FreeRegLocals \<Rightarrow> nat \<Rightarrow> RefPosition \<Rightarrow> nat \<Rightarrow> LsraLocation
     \<Rightarrow> lsra_error + nat" where
  "registerScore tgt ls sel currentInterval refPosition rn nextPhysRefLocation =
     (let physRegRecord = physRegs ls rn;
          candidateBit = genRegMask rn
      in case (if isConstant (intervals ls currentInterval) \<and> RefTypeIsDef tgt (refType refPosition)
               then isMatchingConstant tgt ls physRegRecord refPosition else Inr False) of
           Inl e \<Rightarrow> Inl e
         | Inr valueAvailable \<Rightarrow>
             (let score0 = (if valueAvailable then VALUE_AVAILABLE else 0);
                  score1 = (if candidateBit AND selPreferences sel \<noteq> RBM_NONE
                            then (if selRangeEndLocation sel < nextPhysRefLocation
                                  then (score0 OR OWN_PREFERENCE) OR COVERS
                                  else score0 OR OWN_PREFERENCE)
                            else score0);
                  score34 = (\<lambda>score2.
                     (let score3 = (if (selPreferCalleeSave sel \<and> isCalleeSave physRegRecord)
                                       \<or> (\<not> selPreferCalleeSave sel \<and> \<not> isCalleeSave physRegRecord)
                                    then score2 OR CALLER_CALLEE else score2)
                      in if \<not> isAssigned ls physRegRecord (selLastLocation sel)
                         then score3 OR UNASSIGNED else score3))
              in if candidateBit AND selRelatedPreferences sel \<noteq> RBM_NONE
                 then (case selRelatedInterval sel of
                         None \<Rightarrow> Inl NullDereference
                       | Some ri \<Rightarrow>
                           (case lastRefPosition (intervals ls ri) of
                              None \<Rightarrow> Inl NullDereference
                            | Some lr \<Rightarrow>
                                Inr (score34
                                  (if nodeLocation (refPositions ls lr) < nextPhysRefLocation
                                   then (score1 OR RELATED_PREFERENCE) OR COVERS_RELATED
                                   else score1 OR RELATED_PREFERENCE))))
                 else if candidateBit = registerAssignment refPosition
                 then Inr (score34 (score1 OR RELATED_PREFERENCE))
                 else Inr (score34 score1)))"

text \<open>The comparison of lines 3044-3074.\<close>

definition foundBetterCandidate ::
  "FreeRegLocals \<Rightarrow> nat \<Rightarrow> nat \<Rightarrow> LsraLocation \<Rightarrow> FreeRegSearch \<Rightarrow> bool" where
  "foundBetterCandidate sel rn score nextPhysRefLocation st =
     (if bestScore st < score then True
      else if score = bestScore st
      then (if bestLocation st \<le> selLastLocation sel
            then bestLocation st < nextPhysRefLocation
            else if selLastLocation sel < nextPhysRefLocation
            then (if nextPhysRefLocation < bestLocation st then True
                  else nextPhysRefLocation = bestLocation st \<and> selPrevReg sel = REG rn)
            else False)
      else False)"

text \<open>One iteration of the loop over \<^verbatim>\<open>regOrder\<close> (lines 2948-3096) and how it leaves.\<close>

definition tryAllocateFreeReg_step ::
  "LsraTarget \<Rightarrow> LinearScan \<Rightarrow> FreeRegLocals \<Rightarrow> nat \<Rightarrow> RefPosition \<Rightarrow> nat \<Rightarrow> FreeRegSearch
     \<Rightarrow> lsra_error + (loopExit \<times> FreeRegSearch)" where
  "tryAllocateFreeReg_step tgt ls sel currentInterval refPosition rn st =
     (if candidatesLeft st AND genRegMask rn = 0 then Inr (NoBreak, st)
      else
        (let st1 = st\<lparr> candidatesLeft := candidatesLeft st AND NOT (genRegMask rn) \<rparr>;
             physRegRecord = physRegs ls rn
         in if assignedInterval physRegRecord = Some currentInterval
            then Inr (FoundHolder, st1\<lparr> availablePhysRegInterval := Some rn, unassignInterval := False \<rparr>)
            else
              (case registerIsAvailable ls physRegRecord (nodeLocation refPosition) of
                 Inl e \<Rightarrow> Inl e
               | Inr (False, l) \<Rightarrow> Inr (NoBreak, st1)
               | Inr (True, l) \<Rightarrow>
                   (if conflictingFixedRegReference ls physRegRecord refPosition then Inr (NoBreak, st1)
                    else
                      (let nextPhysRefLocation = adjustedNextLocation ls sel rn l
                       in case registerScore tgt ls sel currentInterval refPosition rn nextPhysRefLocation of
                            Inl e \<Rightarrow> Inl e
                          | Inr score \<Rightarrow>
                              (let st2 = (if foundBetterCandidate sel rn score nextPhysRefLocation st1
                                          then st1\<lparr> bestLocation := nextPhysRefLocation,
                                                    availablePhysRegInterval := Some rn,
                                                    unassignInterval := True,
                                                    bestScore := score \<rparr>
                                          else st1)
                               in Inr (if score = bestPossibleScore sel
                                          \<and> bestLocation st2 = selRangeEndLocation sel + 1
                                       then FoundBestPossible else NoBreak, st2)))))))"

fun tryAllocateFreeReg_loop ::
  "LsraTarget \<Rightarrow> LinearScan \<Rightarrow> FreeRegLocals \<Rightarrow> nat \<Rightarrow> RefPosition \<Rightarrow> nat list \<Rightarrow> FreeRegSearch
     \<Rightarrow> lsra_error + (loopExit \<times> FreeRegSearch)" where
  "tryAllocateFreeReg_loop tgt ls sel currentInterval refPosition [] st = Inr (NoBreak, st)"
| "tryAllocateFreeReg_loop tgt ls sel currentInterval refPosition (rn # rns) st =
     (if candidatesLeft st = RBM_NONE then Inr (NoBreak, st)
      else (case tryAllocateFreeReg_step tgt ls sel currentInterval refPosition rn st of
              Inl e \<Rightarrow> Inl e
            | Inr (NoBreak, st') \<Rightarrow> tryAllocateFreeReg_loop tgt ls sel currentInterval refPosition rns st'
            | Inr (ex, st') \<Rightarrow> Inr (ex, st')))"

text \<open>The selection, lines 2915-3096: the order of the scan, the initial locals, the loop.\<close>

definition selectionOrder :: "FreeRegLocals \<Rightarrow> nat list" where
  "selectionOrder sel =
     (if genMaxOneBit (selCandidates sel) then [genRegNumFromMask (selCandidates sel)]
      else selRegOrder sel)"

definition tryAllocateFreeReg_select ::
  "LsraTarget \<Rightarrow> LinearScan \<Rightarrow> FreeRegLocals \<Rightarrow> nat \<Rightarrow> RefPosition
     \<Rightarrow> lsra_error + (loopExit \<times> FreeRegSearch)" where
  "tryAllocateFreeReg_select tgt ls sel currentInterval refPosition =
     tryAllocateFreeReg_loop tgt ls sel currentInterval refPosition (selectionOrder sel)
       \<lparr> candidatesLeft = selCandidates sel, bestScore = 0, bestLocation = MinLocation,
         availablePhysRegInterval = None, unassignInterval = False \<rparr>"

text \<open>
  After the loop, lines 3098-3127: the chosen register is unassigned from an Interval that
  still holds it, assigned to the current Interval and recorded on the RefPosition.
\<close>

definition tryAllocateFreeReg_assign ::
  "LsraTarget \<Rightarrow> LinearScan \<Rightarrow> nat \<Rightarrow> nat \<Rightarrow> FreeRegSearch \<Rightarrow> lsra_error + (regNumber \<times> LinearScan)" where
  "tryAllocateFreeReg_assign tgt ls currentInterval rp st =
     (case availablePhysRegInterval st of
        None \<Rightarrow> Inr (REG_NA, ls)
      | Some r \<Rightarrow>
          (case (if unassignInterval st \<and> isAssigned ls (physRegs ls r) MaxLocation
                 then
                   (case assignedInterval (physRegs ls r) of
                      None \<Rightarrow> Inr ls
                    | Some intervalToUnassign \<Rightarrow>
                        (case unassignPhysReg tgt ls r (recentRefPosition (intervals ls intervalToUnassign)) of
                           Inl e \<Rightarrow> Inl e
                         | Inr ls1 \<Rightarrow>
                             (if bestScore st AND VALUE_AVAILABLE \<noteq> 0
                              then (case treeNode (refPositions ls1 rp) of
                                      None \<Rightarrow> Inl NullDereference
                                    | Some tn \<Rightarrow>
                                        Inr (ls1\<lparr> trees := (trees ls1)
                                               (tn := (trees ls1 tn)\<lparr> IsReuseRegVal := True \<rparr>) \<rparr>))
                              else if bestScore st AND UNASSIGNED \<noteq> 0
                              then Inr (ls1\<lparr> physRegs := (physRegs ls1)
                                          (r := (physRegs ls1 r)\<lparr> previousInterval := Some intervalToUnassign \<rparr>) \<rparr>)
                              else Inr ls1)))
                 else Inr ls) of
             Inl e \<Rightarrow> Inl e
           | Inr ls2 \<Rightarrow>
               (case assignPhysReg tgt ls2 r currentInterval of
                  Inl e \<Rightarrow> Inl e
                | Inr ls3 \<Rightarrow>
                    Inr (REG (regNum (physRegs ls3 r)),
                         ls3\<lparr> refPositions := (refPositions ls3)
                                (rp := (refPositions ls3 rp)
                                   \<lparr> registerAssignment := genRegMask (regNum (physRegs ls3 r)) \<rparr>) \<rparr>))))"

text \<open>The part \<^verbatim>\<open>Register Selection\<close> of \<^verbatim>\<open>tryAllocateFreeReg\<close> (lines 2888-3128).\<close>

definition tryAllocateFreeReg_selection ::
  "LsraTarget \<Rightarrow> LinearScan \<Rightarrow> FreeRegLocals \<Rightarrow> nat \<Rightarrow> nat \<Rightarrow> lsra_error + (regNumber \<times> LinearScan)" where
  "tryAllocateFreeReg_selection tgt ls sel currentInterval rp =
     (case tryAllocateFreeReg_select tgt ls sel currentInterval (refPositions ls rp) of
        Inl e \<Rightarrow> Inl e
      | Inr (ex, st) \<Rightarrow> tryAllocateFreeReg_assign tgt ls currentInterval rp st)"

subsection \<open>\<^verbatim>\<open>tryAllocateFreeReg\<close>: candidates, preferences and the previous register (lines 2674-2886)\<close>

text \<open>
  Lines 2691-2732: the candidates and the preferences.  \<^verbatim>\<open>resolveConflictingDefAndUse\<close> is
  defined outside lsra.cpp: it is the parameter \<open>rcdu\<close>, a change of the state.  The accessor
  \<^verbatim>\<open>assignedReg()\<close> of a RefPosition with a single candidate is that candidate; with no
  candidate it is \<^verbatim>\<open>REG_NA\<close>, of which there is no RegRecord.
\<close>

definition initialCandidates ::
  "LsraTarget \<Rightarrow> (LinearScan \<Rightarrow> nat \<Rightarrow> nat \<Rightarrow> LinearScan) \<Rightarrow> LinearScan \<Rightarrow> nat \<Rightarrow> nat
     \<Rightarrow> lsra_error + (regMaskTP \<times> regMaskTP \<times> LinearScan)" where
  "initialCandidates tgt rcdu ls currentInterval rp =
     (let refPosition = refPositions ls rp;
          candidates = registerAssignment refPosition;
          preferences = registerPreferences (intervals ls currentInterval)
      in if RefTypeIsDef tgt (refType refPosition)
         then
           (if hasConflictingDefUse (intervals ls currentInterval)
            then (let ls1 = rcdu ls currentInterval rp
                  in Inr (registerAssignment (refPositions ls1 rp), preferences, ls1))
            else
              (case nextRefPosition refPosition of
                 None \<Rightarrow> Inr (candidates, preferences, ls)
               | Some n \<Rightarrow>
                   (let nextRefPos = refPositions ls n
                    in if isFixedRegRef refPosition \<and> RefTypeIsUse tgt (refType nextRefPos)
                          \<and> \<not> isFixedRegRef nextRefPos \<and> genMaxOneBit (registerAssignment refPosition)
                       then
                         (if registerAssignment refPosition = RBM_NONE then Inl NullDereference
                          else
                            (case recentRefPosition
                                    (physRegs ls (genRegNumFromMask (registerAssignment refPosition))) of
                               None \<Rightarrow> Inl NullDereference
                             | Some c \<Rightarrow>
                                 (case nextRefPosition (refPositions ls c) of
                                    None \<Rightarrow> Inr (candidates, preferences, ls)
                                  | Some cn \<Rightarrow>
                                      (if nodeLocation (refPositions ls cn) \<le> getRefEndLocation nextRefPos
                                       then
                                         (let candidates' = candidates OR registerAssignment nextRefPos
                                          in Inr (candidates',
                                                  if preferences = registerAssignment refPosition
                                                  then candidates' else preferences,
                                                  ls))
                                       else Inr (candidates, preferences, ls)))))
                       else Inr (candidates, preferences, ls))))
         else Inr (candidates, preferences, ls))"

text \<open>\<^verbatim>\<open>RegRecord::isFree\<close> (lines 287-290).\<close>

definition isFree :: "LinearScan \<Rightarrow> RegRecord \<Rightarrow> bool" where
  "isFree ls regRec =
     ((case assignedInterval regRec of None \<Rightarrow> True | Some a \<Rightarrow> \<not> isActive (intervals ls a))
      \<and> \<not> isBusyUntilNextKill regRec)"

text \<open>
  The locals of the loop that follows the chain of related Intervals (lines 2748-2813), and
  one iteration of it, entered with \<^verbatim>\<open>nextRelatedInterval\<close> not null.  The call of
  \<^verbatim>\<open>isSingleRegister\<close> has a non-empty argument, for which it is \<^verbatim>\<open>genMaxOneBit\<close>.
\<close>

record RelatedChain =
  nextRelatedInterval :: "nat option"
  finalRelatedInterval :: "nat option"
  rangeEndInterval :: "nat option"
  chainRelatedInterval :: "nat option"
  chainRelatedPreferences :: regMaskTP
  chainRangeEndLocation :: LsraLocation
  chainPreferCalleeSave :: bool

definition relatedStep :: "LsraTarget \<Rightarrow> LinearScan \<Rightarrow> bool \<Rightarrow> nat \<Rightarrow> RelatedChain \<Rightarrow> RelatedChain" where
  "relatedStep tgt ls avoidByteRegs nri c =
     (let notADef = (if nextRelatedInterval c = chainRelatedInterval c
                     then c\<lparr> chainRelatedInterval := None, chainRelatedPreferences := RBM_NONE,
                            nextRelatedInterval := None \<rparr>
                     else c\<lparr> nextRelatedInterval := None \<rparr>)
      in case getNextRefPosition ls (intervals ls nri) of
           None \<Rightarrow> notADef
         | Some nrp \<Rightarrow>
             (if RefTypeIsDef tgt (refType (refPositions ls nrp))
              then
                (let c1 = c\<lparr> finalRelatedInterval := Some nri, nextRelatedInterval := None \<rparr>;
                     thisRelatedPreferences = getCurrentPreferences (intervals ls nri);
                     newRelatedPreferences = thisRelatedPreferences AND chainRelatedPreferences c
                 in if newRelatedPreferences \<noteq> RBM_NONE
                       \<and> (\<not> avoidByteRegs \<or> thisRelatedPreferences \<noteq> RBM_BYTE_REGS tgt)
                    then
                      (if \<not> genMaxOneBit newRelatedPreferences
                          \<or> (isLocalVar (intervals ls nri)
                              \<and> isFree ls (physRegs ls (genRegNumFromMask newRelatedPreferences)))
                       then
                         (let c2 = c1\<lparr> chainRelatedPreferences := newRelatedPreferences \<rparr>
                          in if chainRangeEndLocation c < nodeLocation (refPositions ls nrp)
                             then c2\<lparr> chainPreferCalleeSave :=
                                         (chainPreferCalleeSave c \<or> preferCalleeSave (intervals ls nri)),
                                       chainRangeEndLocation := getRangeEndLocation (refPositions ls nrp),
                                       rangeEndInterval := Some nri,
                                       nextRelatedInterval := relatedInterval (intervals ls nri) \<rparr>
                             else c2)
                       else c1)
                    else c1)
              else notADef))"

text \<open>
  The loop itself.  It ends when \<^verbatim>\<open>nextRelatedInterval\<close> is null; \<open>None\<close> is a loop that is
  still running when the fuel is spent.
\<close>

fun followRelated :: "nat \<Rightarrow> LsraTarget \<Rightarrow> LinearScan \<Rightarrow> bool \<Rightarrow> RelatedChain \<Rightarrow> RelatedChain option" where
  "followRelated fuel tgt ls avoidByteRegs c =
     (case nextRelatedInterval c of
        None \<Rightarrow> Some c
      | Some nri \<Rightarrow>
          (case fuel of
             0 \<Rightarrow> None
           | Suc fuel' \<Rightarrow> followRelated fuel' tgt ls avoidByteRegs (relatedStep tgt ls avoidByteRegs nri c)))"

text \<open>
  How the first part of the function ends: it returns the previous register of the Interval
  at once (lines 2866-2872), or it goes on to the selection with its locals.
\<close>

datatype freeRegPreamble = EarlyReturn regNumber LinearScan | Selection FreeRegLocals LinearScan

text \<open>
  Lines 2844-2880: the register that the Interval had before is taken again when it is
  among the preferences, available, and has no conflicting fixed reference.
\<close>

definition useAssignedReg ::
  "LinearScan \<Rightarrow> regMaskTP \<Rightarrow> nat \<Rightarrow> RefPosition \<Rightarrow> lsra_error + bool" where
  "useAssignedReg ls preferences a refPosition =
     (let regRec = physRegs ls a
      in if genRegMask (regNum regRec) AND preferences \<noteq> RBM_NONE
         then (case registerIsAvailable ls regRec (nodeLocation refPosition) of
                 Inl e \<Rightarrow> Inl e
               | Inr (avail, l) \<Rightarrow>
                   Inr (avail \<and> \<not> conflictingFixedRegReference ls regRec refPosition))
         else Inr False)"

definition tryAllocateFreeReg_locals ::
  "nat \<Rightarrow> LsraTarget \<Rightarrow> (LinearScan \<Rightarrow> nat \<Rightarrow> nat \<Rightarrow> LinearScan) \<Rightarrow> LinearScan \<Rightarrow> nat \<Rightarrow> nat
     \<Rightarrow> (lsra_error + freeRegPreamble) option" where
  "tryAllocateFreeReg_locals fuel tgt rcdu ls0 currentInterval rp =
     (case initialCandidates tgt rcdu ls0 currentInterval rp of
        Inl e \<Rightarrow> Some (Inl e)
      | Inr (candidates, preferences0, ls) \<Rightarrow>
          (let cur = intervals ls currentInterval;
               refPosition = refPositions ls rp;
               preferences = (if preferences0 AND candidates = RBM_NONE then candidates
                              else preferences0 AND candidates);
               relatedInterval0 = (if isSpecialPutArg cur then None else relatedInterval cur);
               relatedPreferences0 = (case relatedInterval0 of
                                        None \<Rightarrow> RBM_NONE
                                      | Some ri \<Rightarrow> getCurrentPreferences (intervals ls ri));
               avoidByteRegs = (TARGET_X86 tgt \<and> relatedPreferences0 AND NOT (RBM_BYTE_REGS tgt) \<noteq> RBM_NONE)
           in case followRelated fuel tgt ls avoidByteRegs
                     \<lparr> nextRelatedInterval = relatedInterval0, finalRelatedInterval = relatedInterval0,
                       rangeEndInterval = relatedInterval0, chainRelatedInterval = relatedInterval0,
                       chainRelatedPreferences = relatedPreferences0,
                       chainRangeEndLocation = getRangeEndLocation refPosition,
                       chainPreferCalleeSave = preferCalleeSave cur \<rparr> of
                None \<Rightarrow> None
              | Some c \<Rightarrow>
                  (let isFloat = useFloatReg tgt (registerType cur);
                       rangeEndRefPosition = (if isFloat then rp else getRangeEndRef refPosition);
                       lastRefPos =
                         (if isFloat then lastRefPosition cur
                          else (case rangeEndInterval c of
                                  None \<Rightarrow> lastRefPosition cur
                                | Some re \<Rightarrow>
                                    (if assignedReg (intervals ls re) = None
                                        \<and> nodeLocation (refPositions ls rangeEndRefPosition)
                                             \<le> getNextRefLocation ls (intervals ls re)
                                     then lastRefPosition (intervals ls re)
                                     else lastRefPosition cur)))
                   in case lastRefPos of
                        None \<Rightarrow> Some (Inl NullDereference)
                      | Some lr \<Rightarrow>
                          (let sel = \<lparr> selCandidates = candidates, selPreferences = preferences,
                                       selRelatedPreferences = chainRelatedPreferences c,
                                       selRelatedInterval = chainRelatedInterval c,
                                       selRangeEndLocation = getRefEndLocation (refPositions ls rangeEndRefPosition),
                                       selLastLocation = getRefEndLocation (refPositions ls lr),
                                       selRangeEndRefPosition = rangeEndRefPosition,
                                       selPreferCalleeSave = (if isFloat then preferCalleeSave cur
                                                              else chainPreferCalleeSave c),
                                       selPrevReg = (case assignedReg cur of
                                                       None \<Rightarrow> REG_NA
                                                     | Some a \<Rightarrow> REG (regNum (physRegs ls a))),
                                       selRegOrder = (if isFloat then lsraRegOrderFlt tgt
                                                      else lsraRegOrder tgt) \<rparr>
                           in case assignedReg cur of
                                None \<Rightarrow> Some (Inr (Selection sel ls))
                              | Some a \<Rightarrow>
                                  (case useAssignedReg ls preferences a refPosition of
                                     Inl e \<Rightarrow> Some (Inl e)
                                   | Inr True \<Rightarrow>
                                       (case assignPhysReg tgt ls a currentInterval of
                                          Inl e \<Rightarrow> Some (Inl e)
                                        | Inr ls1 \<Rightarrow>
                                            Some (Inr (EarlyReturn (REG (regNum (physRegs ls a)))
                                              (ls1\<lparr> refPositions := (refPositions ls1)
                                                   (rp := (refPositions ls1 rp)
                                                      \<lparr> registerAssignment :=
                                                          genRegMask (regNum (physRegs ls a)) \<rparr>) \<rparr>))))
                                   | Inr False \<Rightarrow>
                                       Some (Inr (Selection sel
                                         (ls\<lparr> intervals := (intervals ls)
                                              (currentInterval := cur\<lparr> assignedReg := None \<rparr>) \<rparr>))))))))"

text \<open>\<^verbatim>\<open>tryAllocateFreeReg\<close> (lines 2672-3128): the register found, or \<^verbatim>\<open>REG_NA\<close>, and the new state.\<close>

definition tryAllocateFreeReg ::
  "nat \<Rightarrow> LsraTarget \<Rightarrow> (LinearScan \<Rightarrow> nat \<Rightarrow> nat \<Rightarrow> LinearScan) \<Rightarrow> LinearScan \<Rightarrow> nat \<Rightarrow> nat
     \<Rightarrow> (lsra_error + (regNumber \<times> LinearScan)) option" where
  "tryAllocateFreeReg fuel tgt rcdu ls currentInterval rp =
     (case tryAllocateFreeReg_locals fuel tgt rcdu ls currentInterval rp of
        None \<Rightarrow> None
      | Some (Inl e) \<Rightarrow> Some (Inl e)
      | Some (Inr (EarlyReturn r ls')) \<Rightarrow> Some (Inr (r, ls'))
      | Some (Inr (Selection sel ls')) \<Rightarrow>
          Some (tryAllocateFreeReg_selection tgt ls' sel currentInterval rp))"

subsection \<open>What the selection of a free register compares\<close>
















subsection \<open>\<^verbatim>\<open>allocateRegisters\<close>: the points at which registers are freed\<close>

text \<open>
  The locals \<^verbatim>\<open>prevLocation\<close>, \<^verbatim>\<open>regsToFree\<close>, \<^verbatim>\<open>delayRegsToFree\<close> and \<^verbatim>\<open>handledBlockEnd\<close> of
  the loop over the RefPositions (lines 5145-5154).
\<close>

record FreeQueues =
  prevLocation :: LsraLocation
  regsToFree :: regMaskTP
  delayRegsToFree :: regMaskTP
  handledBlockEnd :: bool

definition initFreeQueues :: FreeQueues where
  "initFreeQueues = \<lparr> prevLocation = MinLocation, regsToFree = RBM_NONE,
                      delayRegsToFree = RBM_NONE, handledBlockEnd = False \<rparr>"

text \<open>
  What the allocation in the middle of an iteration (lines 5283-5799) does to these locals
  and hands to the end of the iteration: whether it leaves the iteration by \<^verbatim>\<open>continue\<close>,
  the registers it adds to \<^verbatim>\<open>regsToFree\<close> (lines 5660 and 5674) and to \<^verbatim>\<open>delayRegsToFree\<close>
  (line 5655), whether \<^verbatim>\<open>currentInterval\<close> is set, the final \<^verbatim>\<open>assignedRegister\<close>, and
  whether the Interval is an upper-vector Interval.
\<close>

record BodyEffect =
  bodyContinues :: bool
  bodyRegsToFree :: regMaskTP
  bodyDelayRegsToFree :: regMaskTP
  bodyHasInterval :: bool
  bodyAssignedRegister :: regNumber
  bodyIsUpperVector :: bool

text \<open>
  Each function returns the new locals and the union of the masks passed to
  \<^verbatim>\<open>freeRegisters\<close>.  Lines 5203-5226:
\<close>

definition freeAtNewLocation :: "FreeQueues \<Rightarrow> LsraLocation \<Rightarrow> FreeQueues \<times> regMaskTP" where
  "freeAtNewLocation q currentLocation =
     (if (regsToFree q OR delayRegsToFree q) \<noteq> RBM_NONE \<and> prevLocation q < currentLocation
      then (if prevLocation q + 1 < currentLocation \<and> delayRegsToFree q \<noteq> RBM_NONE
            then (q\<lparr> regsToFree := RBM_NONE, delayRegsToFree := RBM_NONE, prevLocation := currentLocation \<rparr>,
                  regsToFree q OR delayRegsToFree q)
            else (q\<lparr> regsToFree := delayRegsToFree q, delayRegsToFree := RBM_NONE,
                     prevLocation := currentLocation \<rparr>,
                  regsToFree q))
      else (q\<lparr> prevLocation := currentLocation \<rparr>, RBM_NONE))"

text \<open>Lines 5257-5281, the block boundary.\<close>

definition freeAtBlockEnd :: "FreeQueues \<Rightarrow> RefType \<Rightarrow> FreeQueues \<times> regMaskTP" where
  "freeAtBlockEnd q rt =
     (let (q1, freed) =
            (if \<not> handledBlockEnd q \<and> (rt = RefTypeBB \<or> rt = RefTypeDummyDef)
             then (q\<lparr> regsToFree := RBM_NONE, handledBlockEnd := True \<rparr>, regsToFree q)
             else (q, RBM_NONE))
      in (if rt = RefTypeBB then q1\<lparr> handledBlockEnd := False \<rparr> else q1, freed))"

text \<open>Lines 5801-5851, the end of an iteration that allocated a register.\<close>

definition recordLastUse :: "FreeQueues \<Rightarrow> RefPosition \<Rightarrow> BodyEffect \<Rightarrow> FreeQueues" where
  "recordLastUse q currentRefPosition b =
     (case bodyAssignedRegister b of
        REG r \<Rightarrow>
          (if bodyHasInterval b
           then
             (let assignedRegBit = genRegMask r;
                  q1 = q\<lparr> regsToFree := regsToFree q AND NOT assignedRegBit \<rparr>
              in if \<not> bodyIsUpperVector b
                    \<and> (lastUse currentRefPosition \<or> nextRefPosition currentRefPosition = None)
                    \<and> refType currentRefPosition \<noteq> RefTypeExpUse
                    \<and> nextRefPosition currentRefPosition = None
                 then (if delayRegFree currentRefPosition
                       then q1\<lparr> delayRegsToFree := delayRegsToFree q1 OR assignedRegBit \<rparr>
                       else q1\<lparr> regsToFree := regsToFree q1 OR assignedRegBit \<rparr>)
                 else q1)
           else q)
      | _ \<Rightarrow> q)"

text \<open>One iteration of the loop, and the loop.\<close>

definition freeStep :: "FreeQueues \<Rightarrow> RefPosition \<times> BodyEffect \<Rightarrow> FreeQueues \<times> regMaskTP" where
  "freeStep q step =
     (case step of (currentRefPosition, b) \<Rightarrow>
        (let (q1, freed1) = freeAtNewLocation q (nodeLocation currentRefPosition);
             (q2, freed2) = freeAtBlockEnd q1 (refType currentRefPosition);
             rt = refType currentRefPosition
         in if rt = RefTypeBB \<or> rt = RefTypeKillGCRefs \<or> rt = RefTypeFixedReg \<or> rt = RefTypeExpUse
            then (q2, freed1 OR freed2)
            else
              (let q3 = q2\<lparr> regsToFree := regsToFree q2 OR bodyRegsToFree b,
                           delayRegsToFree := delayRegsToFree q2 OR bodyDelayRegsToFree b \<rparr>
               in if bodyContinues b then (q3, freed1 OR freed2)
                  else (recordLastUse q3 currentRefPosition b, freed1 OR freed2))))"

fun freeRun :: "FreeQueues \<Rightarrow> (RefPosition \<times> BodyEffect) list \<Rightarrow> regMaskTP list \<times> FreeQueues" where
  "freeRun q [] = ([], q)"
| "freeRun q (step # steps) =
     (case freeStep q step of
        (q1, freed) \<Rightarrow> (case freeRun q1 steps of (fs, q') \<Rightarrow> (freed # fs, q')))"

text \<open>After the loop (line 5926) whatever is left in both sets is freed.\<close>

definition freeAfterLoop :: "FreeQueues \<Rightarrow> regMaskTP" where
  "freeAfterLoop q = (regsToFree q OR delayRegsToFree q)"

text \<open>
  A RefPosition at which register \<open>r\<close> is put into one of the two sets: it is the last
  RefPosition of its Interval, the iteration reaches its end with \<open>r\<close> assigned, and
  \<^verbatim>\<open>delayRegFree\<close> is \<open>delayed\<close>.
\<close>

definition releasesReg :: "RefPosition \<times> BodyEffect \<Rightarrow> nat \<Rightarrow> bool \<Rightarrow> bool" where
  "releasesReg step r delayed =
     (case step of (rp, b) \<Rightarrow>
        refType rp \<noteq> RefTypeBB \<and> refType rp \<noteq> RefTypeKillGCRefs \<and> refType rp \<noteq> RefTypeFixedReg
        \<and> refType rp \<noteq> RefTypeExpUse \<and> \<not> bodyContinues b \<and> bodyHasInterval b
        \<and> bodyAssignedRegister b = REG r \<and> \<not> bodyIsUpperVector b
        \<and> nextRefPosition rp = None \<and> delayRegFree rp = delayed)"

text \<open>
  A RefPosition that is not a block boundary and whose iteration neither assigns register
  \<open>r\<close> nor puts it into \<^verbatim>\<open>regsToFree\<close>.
\<close>

definition leavesReg :: "RefPosition \<times> BodyEffect \<Rightarrow> nat \<Rightarrow> bool" where
  "leavesReg step r =
     (case step of (rp, b) \<Rightarrow>
        refType rp \<noteq> RefTypeBB \<and> refType rp \<noteq> RefTypeDummyDef
        \<and> \<not> bit (bodyRegsToFree b) r \<and> bodyAssignedRegister b \<noteq> REG r)"


text \<open>
  Register \<open>r\<close> is waiting to be freed after location \<open>T\<close>: it is in \<^verbatim>\<open>regsToFree\<close> once the
  loop is at \<open>T\<close>, and in \<^verbatim>\<open>delayRegsToFree\<close> only while the loop is one location before.
\<close>

definition pendingFree :: "LsraLocation \<Rightarrow> nat \<Rightarrow> FreeQueues \<Rightarrow> bool" where
  "pendingFree T r q =
     (prevLocation q \<le> T
      \<and> (if prevLocation q = T then bit (regsToFree q) r
          else bit (delayRegsToFree q) r \<and> \<not> bit (regsToFree q) r \<and> prevLocation q + 1 = T))"


subsection \<open>\<^verbatim>\<open>setBlockSequence\<close>: the order of the blocks (lines 749-1102)\<close>

text \<open>
  A basic block is identified by its \<^verbatim>\<open>bbNum\<close>.  The flow graph gives the blocks in layout
  order (the chain of \<^verbatim>\<open>bbNext\<close> from \<^verbatim>\<open>fgFirstBB\<close>), the predecessor list and the successors
  of a block, its weight and whether it is rarely run, the number of entries of
  \<^verbatim>\<open>fgAddCodeList\<close>, and whether the traversal is in layout order.
\<close>

record FlowGraph =
  fgBlocks :: "nat list"
  bbPreds :: "nat \<Rightarrow> nat list"
  GetSucc :: "nat \<Rightarrow> nat list"
  getBBWeight :: "nat \<Rightarrow> 32 word"
  isRunRarely :: "nat \<Rightarrow> bool"
  fgAddCodeList :: nat
  isTraversalLayoutOrder :: bool

definition fgFirstBB :: "FlowGraph \<Rightarrow> nat option" where
  "fgFirstBB fg = (case fgBlocks fg of [] \<Rightarrow> None | b # bs \<Rightarrow> Some b)"

definition bbNext :: "FlowGraph \<Rightarrow> nat \<Rightarrow> nat option" where
  "bbNext fg block =
     (case dropWhile (\<lambda>b. b \<noteq> block) (fgBlocks fg) of
        b # n # bs \<Rightarrow> Some n
      | _ \<Rightarrow> None)"

record BlockSeqState =
  blockSequence :: "nat list"
  bbVisitedSet :: "nat set"
  readySet :: "nat set"
  blockSequenceWorkList :: "nat list"
  verifiedAllBBs :: bool

definition compareBlocksForSequencing :: "FlowGraph \<Rightarrow> nat \<Rightarrow> nat \<Rightarrow> bool \<Rightarrow> int" where
  "compareBlocksForSequencing fg block1 block2 useBlockWeights =
     (if useBlockWeights \<and> getBBWeight fg block2 < getBBWeight fg block1 then - 1
      else if useBlockWeights \<and> getBBWeight fg block1 < getBBWeight fg block2 then 1
      else if block1 < block2 then - 1
      else if block1 = block2 then 0
      else 1)"

text \<open>
  The walk of \<^verbatim>\<open>addToBlockSequenceWorkList\<close> along the work list, up to the first node
  before which the new block is placed.
\<close>

fun insertInWorkList :: "FlowGraph \<Rightarrow> nat set \<Rightarrow> bool \<Rightarrow> nat \<Rightarrow> nat list \<Rightarrow> nat list" where
  "insertInWorkList fg predSet useBlockWeight block [] = [block]"
| "insertInWorkList fg predSet useBlockWeight block (nextNode # rest) =
     (let seqResult =
            (if isRunRarely fg nextNode then compareBlocksForSequencing fg nextNode block True
             else if nextNode \<in> predSet then - 1
             else compareBlocksForSequencing fg nextNode block useBlockWeight)
      in if 0 < seqResult then block # nextNode # rest
         else nextNode # insertInWorkList fg predSet useBlockWeight block rest)"

text \<open>
  \<^verbatim>\<open>BlockSetOps::IsSubset\<close> is not part of these sources; the test of one block set against
  another is a parameter \<open>IsSubset\<close> of the model.
\<close>

definition addToBlockSequenceWorkList ::
  "FlowGraph \<Rightarrow> (nat set \<Rightarrow> nat set \<Rightarrow> bool) \<Rightarrow> nat set \<Rightarrow> nat \<Rightarrow> nat list \<Rightarrow> nat list" where
  "addToBlockSequenceWorkList fg IsSubset sequencedBlockSet block workList =
     (let predSet = set (bbPreds fg block);
          useBlockWeight = (isRunRarely fg block \<or> IsSubset sequencedBlockSet predSet)
      in insertInWorkList fg predSet useBlockWeight block workList)"

fun getNextCandidateFromWorkList :: "nat set \<Rightarrow> nat list \<Rightarrow> nat option \<times> nat list" where
  "getNextCandidateFromWorkList visited [] = (None, [])"
| "getNextCandidateFromWorkList visited (candBlock # rest) =
     (if candBlock \<notin> visited then (Some candBlock, rest)
      else getNextCandidateFromWorkList visited rest)"

text \<open>The calls of \<^verbatim>\<open>setBlockSequence\<close> that put a block on the work list and into \<^verbatim>\<open>readySet\<close>.\<close>

definition makeReady :: "FlowGraph \<Rightarrow> (nat set \<Rightarrow> nat set \<Rightarrow> bool) \<Rightarrow> nat \<Rightarrow> BlockSeqState \<Rightarrow> BlockSeqState" where
  "makeReady fg IsSubset block st =
     st\<lparr> blockSequenceWorkList :=
           addToBlockSequenceWorkList fg IsSubset (readySet st) block (blockSequenceWorkList st),
         readySet := insert block (readySet st) \<rparr>"

text \<open>The loop over the successors of the current block (lines 853-876).\<close>

definition addSuccessor :: "FlowGraph \<Rightarrow> (nat set \<Rightarrow> nat set \<Rightarrow> bool) \<Rightarrow> nat \<Rightarrow> BlockSeqState \<Rightarrow> BlockSeqState" where
  "addSuccessor fg IsSubset succ st =
     (if isTraversalLayoutOrder fg \<or> succ \<in> bbVisitedSet st then st
      else if succ \<notin> readySet st then makeReady fg IsSubset succ st
      else st)"

text \<open>
  The traversal of all blocks when the work list has run dry (lines 896-926).  The first
  loop tests the current block of the outer loop once for each entry of \<^verbatim>\<open>fgAddCodeList\<close>.
\<close>

definition addIfNotVisited :: "FlowGraph \<Rightarrow> (nat set \<Rightarrow> nat set \<Rightarrow> bool) \<Rightarrow> nat \<Rightarrow> BlockSeqState \<Rightarrow> BlockSeqState" where
  "addIfNotVisited fg IsSubset block st =
     (if block \<notin> bbVisitedSet st then makeReady fg IsSubset block st else st)"

definition addAllBlocks :: "FlowGraph \<Rightarrow> (nat set \<Rightarrow> nat set \<Rightarrow> bool) \<Rightarrow> nat \<Rightarrow> BlockSeqState \<Rightarrow> BlockSeqState" where
  "addAllBlocks fg IsSubset block st =
     (let st1 = ((addIfNotVisited fg IsSubset block) ^^ fgAddCodeList fg) st;
          st2 = fold (addIfNotVisited fg IsSubset) (fgBlocks fg) st1
      in st2\<lparr> verifiedAllBBs := True \<rparr>)"

text \<open>The loop \<^verbatim>\<open>while (nextBlock == nullptr)\<close> (lines 885-931).\<close>

definition chooseNextBlock ::
  "FlowGraph \<Rightarrow> (nat set \<Rightarrow> nat set \<Rightarrow> bool) \<Rightarrow> nat \<Rightarrow> BlockSeqState \<Rightarrow> nat option \<times> BlockSeqState" where
  "chooseNextBlock fg IsSubset block st =
     (case getNextCandidateFromWorkList (bbVisitedSet st) (blockSequenceWorkList st) of
        (Some b, wl) \<Rightarrow> (Some b, st\<lparr> blockSequenceWorkList := wl \<rparr>)
      | (None, wl) \<Rightarrow>
          (if verifiedAllBBs st then (None, st\<lparr> blockSequenceWorkList := wl \<rparr>)
           else
             (let st1 = addAllBlocks fg IsSubset block (st\<lparr> blockSequenceWorkList := wl \<rparr>)
              in case getNextCandidateFromWorkList (bbVisitedSet st1) (blockSequenceWorkList st1) of
                   (c, wl1) \<Rightarrow> (c, st1\<lparr> blockSequenceWorkList := wl1 \<rparr>))))"

text \<open>
  The outer loop (lines 809-933), one iteration for each unit of \<open>fuel\<close>; \<open>None\<close> when the
  fuel runs out before the loop ends.
\<close>

fun setBlockSequence_loop ::
  "nat \<Rightarrow> FlowGraph \<Rightarrow> (nat set \<Rightarrow> nat set \<Rightarrow> bool) \<Rightarrow> nat option \<Rightarrow> BlockSeqState \<Rightarrow> BlockSeqState option" where
  "setBlockSequence_loop fuel fg IsSubset None st = Some st"
| "setBlockSequence_loop 0 fg IsSubset (Some block) st = None"
| "setBlockSequence_loop (Suc fuel) fg IsSubset (Some block) st =
     (let st1 = st\<lparr> blockSequence := blockSequence st @ [block],
                    bbVisitedSet := insert block (bbVisitedSet st) \<rparr>;
          st2 = fold (addSuccessor fg IsSubset) (GetSucc fg block) st1
      in if isTraversalLayoutOrder fg
         then setBlockSequence_loop fuel fg IsSubset (bbNext fg block) st2
         else (case chooseNextBlock fg IsSubset block st2 of
                 (nextBlock, st3) \<Rightarrow> setBlockSequence_loop fuel fg IsSubset nextBlock st3))"

definition setBlockSequence :: "nat \<Rightarrow> FlowGraph \<Rightarrow> (nat set \<Rightarrow> nat set \<Rightarrow> bool) \<Rightarrow> nat list option" where
  "setBlockSequence fuel fg IsSubset =
     map_option blockSequence
       (setBlockSequence_loop fuel fg IsSubset (fgFirstBB fg)
          \<lparr> blockSequence = [], bbVisitedSet = {}, readySet = {}, blockSequenceWorkList = [],
            verifiedAllBBs = False \<rparr>)"


subsection \<open>\<^verbatim>\<open>resolveEdge\<close>: the moves across one edge (lines 8248-8666)\<close>

text \<open>
  The code for targets other than ARM.  The moves handed to \<^verbatim>\<open>insertMove\<close> (through
  \<^verbatim>\<open>addResolution\<close>) and \<^verbatim>\<open>insertSwap\<close>, in the order of the calls, which is the order in
  which they stand in the block.  A variable is named by its tracked index.
\<close>

datatype resolution =
    InsertMove nat regNumber regNumber
  | InsertSwap nat regNumber nat regNumber

datatype resolve_error = IndexOutOfRange | NullInterval

datatype ResolveType = ResolveSplit | ResolveJoin | ResolveCritical | ResolveSharedCritical

text \<open>
  What the code takes from its surroundings: whether the target is XARCH, \<^verbatim>\<open>emitter::isFloatReg\<close>,
  and the registers \<^verbatim>\<open>tempRegInt\<close> and \<^verbatim>\<open>tempRegFlt\<close> that \<^verbatim>\<open>getTempRegForResolution\<close> returned.
\<close>

record ResolveEnv =
  TARGET_XARCH :: bool
  isFloatReg :: "nat \<Rightarrow> bool"
  tempRegInt :: regNumber
  tempRegFlt :: regNumber

text \<open>The locals of \<^verbatim>\<open>resolveEdge\<close>; the arrays are indexed by register number.\<close>

record ResolveState =
  location :: "nat \<Rightarrow> regNumber"
  source :: "nat \<Rightarrow> regNumber"
  sourceIntervals :: "nat \<Rightarrow> nat option"
  stackToRegIntervals :: "nat \<Rightarrow> nat option"
  targetRegsToDo :: regMaskTP
  targetRegsReady :: regMaskTP
  targetRegsFromStack :: regMaskTP
  resolutions :: "resolution list"
  spilledIntervals :: "nat list"

definition initResolveState :: ResolveState where
  "initResolveState =
     \<lparr> location = (\<lambda>_. REG_NA), source = (\<lambda>_. REG_NA), sourceIntervals = (\<lambda>_. None),
       stackToRegIntervals = (\<lambda>_. None), targetRegsToDo = RBM_NONE, targetRegsReady = RBM_NONE,
       targetRegsFromStack = RBM_NONE, resolutions = [], spilledIntervals = [] \<rparr>"

text \<open>
  Modelled from the spec: \<^verbatim>\<open>genFindLowestBit\<close> is missing; together with
  \<^verbatim>\<open>genRegNumFromMask\<close> it gives the lowest register of a non-empty mask.
\<close>

definition lowestReg :: "regMaskTP \<Rightarrow> nat" where
  "lowestReg m = genRegNumFromMask m"

definition regsOfMask :: "regMaskTP \<Rightarrow> nat list" where
  "regsOfMask m = filter (\<lambda>r. bit m r) [0..<64]"

text \<open>An array element whose index is a register number; any other index is out of range.\<close>

definition atReg :: "(nat \<Rightarrow> 'a) \<Rightarrow> regNumber \<Rightarrow> resolve_error + 'a" where
  "atReg a x = (case x of REG r \<Rightarrow> Inr (a r) | _ \<Rightarrow> Inl IndexOutOfRange)"

definition intervalAt :: "(nat \<Rightarrow> nat option) \<Rightarrow> regNumber \<Rightarrow> resolve_error + nat" where
  "intervalAt a x =
     (case x of
        REG r \<Rightarrow> (case a r of Some v \<Rightarrow> Inr v | None \<Rightarrow> Inl NullInterval)
      | _ \<Rightarrow> Inl IndexOutOfRange)"

text \<open>The first loop, over the variables of \<^verbatim>\<open>liveSet\<close> (lines 8375-8421).\<close>

definition classifyVar ::
  "(nat \<Rightarrow> regNumber) \<Rightarrow> (nat \<Rightarrow> regNumber) \<Rightarrow> nat \<Rightarrow> ResolveState \<Rightarrow> resolve_error + ResolveState" where
  "classifyVar fromVarToRegMap toVarToRegMap varIndex st =
     (let fromReg = fromVarToRegMap varIndex; toReg = toVarToRegMap varIndex
      in if fromReg = toReg then Inr st
         else (case fromReg of
                 REG_STK \<Rightarrow>
                   (case toReg of
                      REG t \<Rightarrow>
                        Inr (st\<lparr> stackToRegIntervals := (stackToRegIntervals st)(t := Some varIndex),
                                 targetRegsFromStack := targetRegsFromStack st OR genRegMask t \<rparr>)
                    | _ \<Rightarrow> Inl IndexOutOfRange)
               | REG f \<Rightarrow>
                   (case toReg of
                      REG_STK \<Rightarrow>
                        Inr (st\<lparr> resolutions := resolutions st @ [InsertMove varIndex (REG f) REG_STK] \<rparr>)
                    | REG t \<Rightarrow>
                        Inr (st\<lparr> location := (location st)(f := REG f),
                                 source := (source st)(t := REG f),
                                 sourceIntervals := (sourceIntervals st)(f := Some varIndex),
                                 targetRegsToDo := targetRegsToDo st OR genRegMask t \<rparr>)
                    | REG_NA \<Rightarrow> Inl IndexOutOfRange)
               | REG_NA \<Rightarrow> Inl IndexOutOfRange))"

fun classifyVars ::
  "(nat \<Rightarrow> regNumber) \<Rightarrow> (nat \<Rightarrow> regNumber) \<Rightarrow> nat list \<Rightarrow> ResolveState \<Rightarrow> resolve_error + ResolveState" where
  "classifyVars fromVarToRegMap toVarToRegMap [] st = Inr st"
| "classifyVars fromVarToRegMap toVarToRegMap (v # vs) st =
     (case classifyVar fromVarToRegMap toVarToRegMap v st of
        Inl e \<Rightarrow> Inl e
      | Inr st' \<Rightarrow> classifyVars fromVarToRegMap toVarToRegMap vs st')"

text \<open>The targets that are free from the start (lines 8426-8452).\<close>

definition findReadyTargets :: "ResolveState \<Rightarrow> ResolveState" where
  "findReadyTargets st =
     st\<lparr> targetRegsReady :=
           fold (\<lambda>targetReg ready. if location st targetReg = REG_NA then ready OR genRegMask targetReg else ready)
             (regsOfMask (targetRegsToDo st)) (targetRegsReady st) \<rparr>"

text \<open>One iteration of the loop over \<^verbatim>\<open>targetRegsReady\<close> (lines 8457-8512).\<close>

definition readyStep :: "ResolveState \<Rightarrow> resolve_error + ResolveState" where
  "readyStep st =
     (let targetReg = lowestReg (targetRegsReady st);
          targetRegMask = genRegMask targetReg;
          sourceReg = source st targetReg
      in case atReg (location st) sourceReg of
           Inl e \<Rightarrow> Inl e
         | Inr fromReg \<Rightarrow>
             (case intervalAt (sourceIntervals st) sourceReg of
                Inl e \<Rightarrow> Inl e
              | Inr interval \<Rightarrow>
                  (case sourceReg of
                     REG s \<Rightarrow>
                       (let st1 = st\<lparr> targetRegsToDo := targetRegsToDo st AND NOT targetRegMask,
                                      targetRegsReady := targetRegsReady st AND NOT targetRegMask,
                                      resolutions := resolutions st @ [InsertMove interval fromReg (REG targetReg)],
                                      sourceIntervals := (sourceIntervals st)(s := None),
                                      location := (location st)(s := REG_NA) \<rparr>
                        in if fromReg = sourceReg \<and> source st s \<noteq> REG_NA
                           then Inr (st1\<lparr> targetRegsReady := targetRegsReady st1 OR genRegMask s \<rparr>)
                           else Inr st1)
                   | _ \<Rightarrow> Inl IndexOutOfRange)))"

text \<open>The search for the register whose value is to come from \<^verbatim>\<open>targetReg\<close> (lines 8566-8578).\<close>

fun findOtherTarget :: "ResolveState \<Rightarrow> nat \<Rightarrow> nat list \<Rightarrow> resolve_error + regNumber" where
  "findOtherTarget st targetReg [] = Inr REG_NA"
| "findOtherTarget st targetReg (nextReg # rest) =
     (case atReg (location st) (source st nextReg) of
        Inl e \<Rightarrow> Inl e
      | Inr l \<Rightarrow> if l = REG targetReg then Inr (REG nextReg) else findOtherTarget st targetReg rest)"

text \<open>
  The step that breaks a cycle when no target is ready (lines 8514-8646).  First the choice
  of \<^verbatim>\<open>otherTargetReg\<close> (lines 8551-8580), which with a swap takes \<^verbatim>\<open>fromReg\<close> out of
  \<^verbatim>\<open>targetRegsToDo\<close> when its value goes where it belongs.
\<close>

definition chooseOtherTarget ::
  "ResolveState \<Rightarrow> nat \<Rightarrow> regNumber \<Rightarrow> bool \<Rightarrow> resolve_error + (regNumber \<times> ResolveState)" where
  "chooseOtherTarget st targetReg fromReg useSwap =
     (case fromReg of
        REG f \<Rightarrow>
          (case atReg (location st) (source st f) of
             Inl e \<Rightarrow> Inl e
           | Inr l \<Rightarrow>
               if l = REG targetReg
               then Inr (fromReg,
                         if useSwap then st\<lparr> targetRegsToDo := targetRegsToDo st AND NOT (genRegMask f) \<rparr>
                         else st)
               else (case findOtherTarget st targetReg (regsOfMask (targetRegsToDo st)) of
                       Inl e \<Rightarrow> Inl e
                     | Inr other \<Rightarrow> Inr (other, st)))
      | _ \<Rightarrow> Inl IndexOutOfRange)"

text \<open>The swap of \<^verbatim>\<open>fromReg\<close> and \<^verbatim>\<open>targetReg\<close> (lines 8583-8591).\<close>

definition breakBySwap ::
  "ResolveState \<Rightarrow> nat \<Rightarrow> regNumber \<Rightarrow> regNumber \<Rightarrow> regNumber \<Rightarrow> resolve_error + ResolveState" where
  "breakBySwap st targetReg sourceReg fromReg otherTargetReg =
     (case atReg (source st) otherTargetReg of
        Inl e \<Rightarrow> Inl e
      | Inr otherSource \<Rightarrow>
          (case intervalAt (sourceIntervals st) otherSource of
             Inl e \<Rightarrow> Inl e
           | Inr otherInterval \<Rightarrow>
               (case intervalAt (sourceIntervals st) sourceReg of
                  Inl e \<Rightarrow> Inl e
                | Inr interval \<Rightarrow>
                    (case sourceReg of
                       REG s \<Rightarrow>
                         (case otherSource of
                            REG os \<Rightarrow>
                              Inr (st\<lparr> resolutions := resolutions st
                                         @ [InsertSwap otherInterval (REG targetReg) interval fromReg],
                                       location := ((location st)(s := REG_NA))(os := fromReg) \<rparr>)
                          | _ \<Rightarrow> Inl IndexOutOfRange)
                     | _ \<Rightarrow> Inl IndexOutOfRange))))"

text \<open>The spill of the value in \<^verbatim>\<open>targetReg\<close> to the stack (lines 8592-8612).\<close>

definition breakBySpill ::
  "ResolveState \<Rightarrow> nat \<Rightarrow> regNumber \<Rightarrow> regNumber \<Rightarrow> regNumber \<Rightarrow> resolve_error + ResolveState" where
  "breakBySpill st targetReg sourceReg fromReg otherTargetReg =
     (case atReg (source st) otherTargetReg of
        Inl e \<Rightarrow> Inl e
      | Inr otherSource \<Rightarrow>
          (case intervalAt (sourceIntervals st) otherSource of
             Inl e \<Rightarrow> Inl e
           | Inr otherInterval \<Rightarrow>
               (case otherSource of
                  REG os \<Rightarrow>
                    (let st1 = st\<lparr> spilledIntervals := spilledIntervals st @ [otherInterval],
                                   resolutions := resolutions st
                                     @ [InsertMove otherInterval (REG targetReg) REG_STK],
                                   location := (location st)(os := REG_STK) \<rparr>
                     in case intervalAt (sourceIntervals st1) sourceReg of
                          Inl e \<Rightarrow> Inl e
                        | Inr interval \<Rightarrow>
                            (case sourceReg of
                               REG s \<Rightarrow>
                                 (case fromReg of
                                    REG f \<Rightarrow>
                                      Inr (st1\<lparr> resolutions := resolutions st1
                                                  @ [InsertMove interval fromReg (REG targetReg)],
                                                location := (location st1)(s := REG_NA),
                                                targetRegsReady := targetRegsReady st1 OR genRegMask f \<rparr>)
                                  | _ \<Rightarrow> Inl IndexOutOfRange)
                             | _ \<Rightarrow> Inl IndexOutOfRange))
                | _ \<Rightarrow> Inl IndexOutOfRange)))"

text \<open>The move of the value in \<^verbatim>\<open>targetReg\<close> to the temporary register (lines 8616-8639).\<close>

definition breakByTemp :: "ResolveState \<Rightarrow> nat \<Rightarrow> regNumber \<Rightarrow> resolve_error + ResolveState" where
  "breakByTemp st targetReg tempReg =
     (case sourceIntervals st targetReg of
        None \<Rightarrow> Inl NullInterval
      | Some occupant \<Rightarrow>
          Inr (st\<lparr> resolutions := resolutions st @ [InsertMove occupant (REG targetReg) tempReg],
                   location := (location st)(targetReg := tempReg),
                   targetRegsReady := targetRegsReady st OR genRegMask targetReg \<rparr>))"

text \<open>Whether a cycle at \<^verbatim>\<open>targetReg\<close> is broken by a swap, and the temporary register for it.\<close>

definition useSwapFor :: "ResolveEnv \<Rightarrow> nat \<Rightarrow> bool" where
  "useSwapFor env targetReg = (\<not> isFloatReg env targetReg \<and> TARGET_XARCH env)"

definition tempRegFor :: "ResolveEnv \<Rightarrow> nat \<Rightarrow> regNumber" where
  "tempRegFor env targetReg =
     (if isFloatReg env targetReg then tempRegFlt env
      else if TARGET_XARCH env then REG_NA else tempRegInt env)"

definition cycleStep :: "ResolveEnv \<Rightarrow> ResolveState \<Rightarrow> resolve_error + ResolveState" where
  "cycleStep env st =
     (let targetReg = lowestReg (targetRegsToDo st);
          targetRegMask = genRegMask targetReg;
          sourceReg = source st targetReg
      in case atReg (location st) sourceReg of
           Inl e \<Rightarrow> Inl e
         | Inr fromReg \<Rightarrow>
             if REG targetReg = fromReg
             then Inr (st\<lparr> targetRegsToDo := targetRegsToDo st AND NOT targetRegMask \<rparr>)
             else if useSwapFor env targetReg \<or> tempRegFor env targetReg = REG_NA
             then
               (case chooseOtherTarget st targetReg fromReg (useSwapFor env targetReg) of
                  Inl e \<Rightarrow> Inl e
                | Inr (otherTargetReg, st1) \<Rightarrow>
                    (case (if useSwapFor env targetReg
                           then breakBySwap st1 targetReg sourceReg fromReg otherTargetReg
                           else breakBySpill st1 targetReg sourceReg fromReg otherTargetReg) of
                       Inl e \<Rightarrow> Inl e
                     | Inr st2 \<Rightarrow>
                         Inr (st2\<lparr> targetRegsToDo := targetRegsToDo st2 AND NOT targetRegMask \<rparr>)))
             else breakByTemp st targetReg (tempRegFor env targetReg))"

text \<open>
  The loops \<^verbatim>\<open>while (targetRegsReady != RBM_NONE)\<close> and \<^verbatim>\<open>while (targetRegsToDo != RBM_NONE)\<close>,
  one iteration for each unit of fuel; \<open>None\<close> when the fuel runs out.
\<close>

fun readyLoop :: "nat \<Rightarrow> ResolveState \<Rightarrow> (resolve_error + ResolveState) option" where
  "readyLoop 0 st = (if targetRegsReady st = RBM_NONE then Some (Inr st) else None)"
| "readyLoop (Suc n) st =
     (if targetRegsReady st = RBM_NONE then Some (Inr st)
      else (case readyStep st of
              Inl e \<Rightarrow> Some (Inl e)
            | Inr st' \<Rightarrow> readyLoop n st'))"

fun regToRegLoop :: "nat \<Rightarrow> ResolveEnv \<Rightarrow> ResolveState \<Rightarrow> (resolve_error + ResolveState) option" where
  "regToRegLoop 0 env st = (if targetRegsToDo st = RBM_NONE then Some (Inr st) else None)"
| "regToRegLoop (Suc n) env st =
     (if targetRegsToDo st = RBM_NONE then Some (Inr st)
      else (case readyLoop (Suc n) st of
              None \<Rightarrow> None
            | Some (Inl e) \<Rightarrow> Some (Inl e)
            | Some (Inr st1) \<Rightarrow>
                (if targetRegsToDo st1 \<noteq> RBM_NONE
                 then (case cycleStep env st1 of
                         Inl e \<Rightarrow> Some (Inl e)
                       | Inr st2 \<Rightarrow> regToRegLoop n env st2)
                 else regToRegLoop n env st1)))"

text \<open>The loads from the stack (lines 8651-8663).\<close>

fun stackToRegMoves :: "ResolveState \<Rightarrow> nat list \<Rightarrow> resolve_error + resolution list" where
  "stackToRegMoves st [] = Inr []"
| "stackToRegMoves st (targetReg # rest) =
     (case stackToRegIntervals st targetReg of
        None \<Rightarrow> Inl NullInterval
      | Some interval \<Rightarrow>
          (case stackToRegMoves st rest of
             Inl e \<Rightarrow> Inl e
           | Inr ms \<Rightarrow> Inr (InsertMove interval REG_STK (REG targetReg) # ms)))"

text \<open>The moves of \<^verbatim>\<open>resolveEdge\<close> for the variables \<^verbatim>\<open>liveSet\<close>, in increasing order.\<close>

definition resolveEdge ::
  "nat \<Rightarrow> ResolveEnv \<Rightarrow> (nat \<Rightarrow> regNumber) \<Rightarrow> (nat \<Rightarrow> regNumber) \<Rightarrow> nat list
     \<Rightarrow> (resolve_error + resolution list) option" where
  "resolveEdge fuel env fromVarToRegMap toVarToRegMap liveSet =
     (case classifyVars fromVarToRegMap toVarToRegMap liveSet initResolveState of
        Inl e \<Rightarrow> Some (Inl e)
      | Inr st0 \<Rightarrow>
          (case regToRegLoop fuel env (findReadyTargets st0) of
             None \<Rightarrow> None
           | Some (Inl e) \<Rightarrow> Some (Inl e)
           | Some (Inr st1) \<Rightarrow>
               (case stackToRegMoves st1 (regsOfMask (targetRegsFromStack st1)) of
                  Inl e \<Rightarrow> Some (Inl e)
                | Inr ms \<Rightarrow> Some (Inr (resolutions st1 @ ms)))))"

subsection \<open>What the moves do\<close>

text \<open>
  A machine state says whose value each register holds and whose value the stack home of
  each variable holds.  A move of variable \<open>v\<close> to the stack writes the home of \<open>v\<close>, a move
  from the stack reads it.
\<close>

record Machine =
  regVal :: "nat \<Rightarrow> nat option"
  stkVal :: "nat \<Rightarrow> nat option"

fun execResolution :: "resolution \<Rightarrow> Machine \<Rightarrow> Machine" where
  "execResolution (InsertMove v (REG f) (REG t)) m = m\<lparr> regVal := (regVal m)(t := regVal m f) \<rparr>"
| "execResolution (InsertMove v (REG f) REG_STK) m = m\<lparr> stkVal := (stkVal m)(v := regVal m f) \<rparr>"
| "execResolution (InsertMove v REG_STK (REG t)) m = m\<lparr> regVal := (regVal m)(t := stkVal m v) \<rparr>"
| "execResolution (InsertSwap v1 (REG r1) v2 (REG r2)) m =
     m\<lparr> regVal := ((regVal m)(r1 := regVal m r2))(r2 := regVal m r1) \<rparr>"
| "execResolution _ m = m"

definition execResolutions :: "resolution list \<Rightarrow> Machine \<Rightarrow> Machine" where
  "execResolutions ms m = fold execResolution ms m"



subsection \<open>The edge that \<^verbatim>\<open>resolveEdge\<close> is given, and what holds during its loops\<close>

text \<open>
  Variable \<open>v\<close> of the live set is in register \<open>f\<close> before the edge and in another register
  \<open>t\<close> after it.
\<close>

definition regToReg ::
  "(nat \<Rightarrow> regNumber) \<Rightarrow> (nat \<Rightarrow> regNumber) \<Rightarrow> nat list \<Rightarrow> nat \<Rightarrow> nat \<Rightarrow> nat \<Rightarrow> bool" where
  "regToReg F T live v f t = (v \<in> set live \<and> F v = REG f \<and> T v = REG t \<and> f \<noteq> t)"

text \<open>
  The maps of an edge: every live variable has a place on both sides, register numbers fit
  a mask, no register holds two live variables on one side, a variable stays in its
  register class, and a temporary register is a register that holds no live variable on
  either side, or \<^verbatim>\<open>REG_NA\<close> (\<^verbatim>\<open>getTempRegForResolution\<close>, lines 7563-7622, takes the
  lowest register of the class that no live variable has on either side).
\<close>

definition tempRegFree :: "(nat \<Rightarrow> regNumber) \<Rightarrow> (nat \<Rightarrow> regNumber) \<Rightarrow> nat list \<Rightarrow> regNumber \<Rightarrow> bool" where
  "tempRegFree F T live x = (x \<noteq> REG_STK \<and> (\<forall>v \<in> set live. F v \<noteq> x \<and> T v \<noteq> x))"

definition resolvable ::
  "ResolveEnv \<Rightarrow> (nat \<Rightarrow> regNumber) \<Rightarrow> (nat \<Rightarrow> regNumber) \<Rightarrow> nat list \<Rightarrow> bool" where
  "resolvable env F T live =
     (distinct live
      \<and> (\<forall>v \<in> set live. F v \<noteq> REG_NA \<and> T v \<noteq> REG_NA)
      \<and> (\<forall>v \<in> set live. \<forall>r. F v = REG r \<or> T v = REG r \<longrightarrow> r < 64)
      \<and> (\<forall>v \<in> set live. \<forall>w \<in> set live. \<forall>r. F v = REG r \<and> F w = REG r \<longrightarrow> v = w)
      \<and> (\<forall>v \<in> set live. \<forall>w \<in> set live. \<forall>r. T v = REG r \<and> T w = REG r \<longrightarrow> v = w)
      \<and> (\<forall>v \<in> set live. \<forall>f t. F v = REG f \<and> T v = REG t \<longrightarrow> isFloatReg env f = isFloatReg env t)
      \<and> tempRegFree F T live (tempRegInt env) \<and> tempRegFree F T live (tempRegFlt env))"

text \<open>The value of variable \<open>v\<close> is at the place \<open>p\<close>.\<close>

definition positioned :: "Machine \<Rightarrow> nat \<Rightarrow> regNumber \<Rightarrow> bool" where
  "positioned m v p =
     (case p of
        REG x \<Rightarrow> regVal m x = Some v
      | REG_STK \<Rightarrow> stkVal m v = Some v
      | REG_NA \<Rightarrow> False)"

text \<open>
  The state of the loops over the register-to-register moves, for the machine \<open>m\<close> reached
  by the moves emitted so far.  \<open>source\<close> is as the first loop set it; a target still to do
  belongs to a variable whose value is where \<open>location\<close> says (its own register, a register
  it was swapped into, the temporary register or the stack); a variable whose target is done
  is in its target; a ready target is still to do and holds no value that waits; a target
  that is not ready holds a value that waits; while a value is in the temporary register or
  spilled, some target is ready and no other value is; either every waiting value is in its
  own register, or the registers of waiting values are targets still to do; and no target of
  the swapping class is ready while a value sits in a register it was swapped into.
\<close>

definition invSource :: "(nat \<Rightarrow> regNumber) \<Rightarrow> (nat \<Rightarrow> regNumber) \<Rightarrow> nat list \<Rightarrow> ResolveState \<Rightarrow> bool" where
  "invSource F T live st =
     ((\<forall>v f t. regToReg F T live v f t \<longrightarrow> source st t = REG f)
      \<and> (\<forall>t. source st t \<noteq> REG_NA \<longrightarrow> (\<exists>v f. regToReg F T live v f t)))"

definition invToDo :: "(nat \<Rightarrow> regNumber) \<Rightarrow> (nat \<Rightarrow> regNumber) \<Rightarrow> nat list \<Rightarrow> ResolveState \<Rightarrow> bool" where
  "invToDo F T live st = (\<forall>t. bit (targetRegsToDo st) t \<longrightarrow> (\<exists>v f. regToReg F T live v f t))"

definition waiting ::
  "(nat \<Rightarrow> regNumber) \<Rightarrow> (nat \<Rightarrow> regNumber) \<Rightarrow> nat list \<Rightarrow> ResolveState \<Rightarrow> nat \<Rightarrow> nat \<Rightarrow> nat \<Rightarrow> bool" where
  "waiting F T live st v f t = (regToReg F T live v f t \<and> bit (targetRegsToDo st) t)"

definition invWaiting ::
  "ResolveEnv \<Rightarrow> (nat \<Rightarrow> regNumber) \<Rightarrow> (nat \<Rightarrow> regNumber) \<Rightarrow> nat list \<Rightarrow> Machine \<Rightarrow> ResolveState \<Rightarrow> bool" where
  "invWaiting env F T live m st =
     (\<forall>v f t. waiting F T live st v f t \<longrightarrow>
        sourceIntervals st f = Some v \<and> positioned m v (location st f)
        \<and> (location st f = REG f
            \<or> (useSwapFor env t \<and> (\<exists>x. location st f = REG x \<and> useSwapFor env x))
            \<or> (\<not> useSwapFor env t \<and> location st f = tempRegFor env t \<and> tempRegFor env t \<noteq> REG_NA)
            \<or> (\<not> useSwapFor env t \<and> location st f = REG_STK \<and> tempRegFor env t = REG_NA)))"

definition invDone ::
  "(nat \<Rightarrow> regNumber) \<Rightarrow> (nat \<Rightarrow> regNumber) \<Rightarrow> nat list \<Rightarrow> Machine \<Rightarrow> ResolveState \<Rightarrow> bool" where
  "invDone F T live m st =
     (\<forall>v f t. regToReg F T live v f t \<and> \<not> bit (targetRegsToDo st) t \<longrightarrow> regVal m t = Some v)"

definition invOthers :: "(nat \<Rightarrow> regNumber) \<Rightarrow> (nat \<Rightarrow> regNumber) \<Rightarrow> nat list \<Rightarrow> Machine \<Rightarrow> bool" where
  "invOthers F T live m =
     ((\<forall>v \<in> set live. \<forall>r. F v = REG r \<and> T v = REG r \<longrightarrow> regVal m r = Some v)
      \<and> (\<forall>v \<in> set live. F v = REG_STK \<or> T v = REG_STK \<longrightarrow> stkVal m v = Some v))"

definition invReady ::
  "(nat \<Rightarrow> regNumber) \<Rightarrow> (nat \<Rightarrow> regNumber) \<Rightarrow> nat list \<Rightarrow> ResolveState \<Rightarrow> bool" where
  "invReady F T live st =
     (\<forall>r. bit (targetRegsReady st) r \<longrightarrow>
        bit (targetRegsToDo st) r
        \<and> (\<forall>v f t. waiting F T live st v f t \<longrightarrow> location st f \<noteq> REG r))"

definition invBlocked ::
  "(nat \<Rightarrow> regNumber) \<Rightarrow> (nat \<Rightarrow> regNumber) \<Rightarrow> nat list \<Rightarrow> ResolveState \<Rightarrow> bool" where
  "invBlocked F T live st =
     (\<forall>r. bit (targetRegsToDo st) r \<and> \<not> bit (targetRegsReady st) r \<longrightarrow>
        (\<exists>w f t. waiting F T live st w f t \<and> location st f = REG r))"

definition setAside ::
  "ResolveEnv \<Rightarrow> (nat \<Rightarrow> regNumber) \<Rightarrow> (nat \<Rightarrow> regNumber) \<Rightarrow> nat list \<Rightarrow> ResolveState \<Rightarrow> nat \<Rightarrow> bool" where
  "setAside env F T live st v =
     (\<exists>f t. waiting F T live st v f t \<and> location st f \<noteq> REG f \<and> \<not> useSwapFor env t)"

definition invSetAside ::
  "ResolveEnv \<Rightarrow> (nat \<Rightarrow> regNumber) \<Rightarrow> (nat \<Rightarrow> regNumber) \<Rightarrow> nat list \<Rightarrow> ResolveState \<Rightarrow> bool" where
  "invSetAside env F T live st =
     (\<forall>v. setAside env F T live st v \<longrightarrow>
        targetRegsReady st \<noteq> RBM_NONE \<and> (\<forall>w. setAside env F T live st w \<longrightarrow> w = v))"

definition invPhase ::
  "ResolveEnv \<Rightarrow> (nat \<Rightarrow> regNumber) \<Rightarrow> (nat \<Rightarrow> regNumber) \<Rightarrow> nat list \<Rightarrow> ResolveState \<Rightarrow> bool" where
  "invPhase env F T live st =
     ((\<forall>v f t. waiting F T live st v f t \<longrightarrow> location st f = REG f)
      \<or> (\<forall>v f t x. waiting F T live st v f t \<and> location st f = REG x \<and> (x = f \<or> useSwapFor env t)
            \<longrightarrow> bit (targetRegsToDo st) x))"

definition invSwapped ::
  "ResolveEnv \<Rightarrow> (nat \<Rightarrow> regNumber) \<Rightarrow> (nat \<Rightarrow> regNumber) \<Rightarrow> nat list \<Rightarrow> ResolveState \<Rightarrow> bool" where
  "invSwapped env F T live st =
     (\<forall>v f t r. waiting F T live st v f t \<and> location st f \<noteq> REG f \<and> useSwapFor env t
                 \<and> bit (targetRegsReady st) r \<longrightarrow> \<not> useSwapFor env r)"

text \<open>
  A register of the edge holds a live variable on one side.  A move puts a value into
  scratch when it writes a register that is not of the edge, or the stack home of a variable
  whose place after the edge is not the stack; it takes a value out of scratch when it reads
  such a register, or the stack home of a variable whose place before the edge is not the
  stack.  \<open>scratchHeld\<close> follows the number of values in scratch along a list of moves and
  is \<open>None\<close> when a second value would be put into scratch or none is there to take out.
\<close>

definition edgeReg :: "(nat \<Rightarrow> regNumber) \<Rightarrow> (nat \<Rightarrow> regNumber) \<Rightarrow> nat list \<Rightarrow> nat \<Rightarrow> bool" where
  "edgeReg F T live r = (\<exists>v \<in> set live. F v = REG r \<or> T v = REG r)"

definition toScratch :: "(nat \<Rightarrow> regNumber) \<Rightarrow> (nat \<Rightarrow> regNumber) \<Rightarrow> nat list \<Rightarrow> resolution \<Rightarrow> bool" where
  "toScratch F T live mv =
     (case mv of
        InsertMove v fromReg toReg \<Rightarrow>
          (case toReg of REG r \<Rightarrow> \<not> edgeReg F T live r | REG_STK \<Rightarrow> T v \<noteq> REG_STK | REG_NA \<Rightarrow> False)
      | InsertSwap v1 r1 v2 r2 \<Rightarrow> False)"

definition fromScratch :: "(nat \<Rightarrow> regNumber) \<Rightarrow> (nat \<Rightarrow> regNumber) \<Rightarrow> nat list \<Rightarrow> resolution \<Rightarrow> bool" where
  "fromScratch F T live mv =
     (case mv of
        InsertMove v fromReg toReg \<Rightarrow>
          (case fromReg of REG r \<Rightarrow> \<not> edgeReg F T live r | REG_STK \<Rightarrow> F v \<noteq> REG_STK | REG_NA \<Rightarrow> False)
      | InsertSwap v1 r1 v2 r2 \<Rightarrow> False)"

definition scratchStep ::
  "(nat \<Rightarrow> regNumber) \<Rightarrow> (nat \<Rightarrow> regNumber) \<Rightarrow> nat list \<Rightarrow> resolution \<Rightarrow> nat \<Rightarrow> nat option" where
  "scratchStep F T live mv h =
     (if toScratch F T live mv then (if h = 0 then Some 1 else None)
      else if fromScratch F T live mv then (if h = 1 then Some 0 else None)
      else Some h)"

fun scratchHeld ::
  "(nat \<Rightarrow> regNumber) \<Rightarrow> (nat \<Rightarrow> regNumber) \<Rightarrow> nat list \<Rightarrow> resolution list \<Rightarrow> nat \<Rightarrow> nat option" where
  "scratchHeld F T live [] h = Some h"
| "scratchHeld F T live (mv # ms) h =
     (case scratchStep F T live mv h of
        None \<Rightarrow> None
      | Some h' \<Rightarrow> scratchHeld F T live ms h')"

definition invScratch ::
  "ResolveEnv \<Rightarrow> (nat \<Rightarrow> regNumber) \<Rightarrow> (nat \<Rightarrow> regNumber) \<Rightarrow> nat list \<Rightarrow> ResolveState \<Rightarrow> bool" where
  "invScratch env F T live st =
     (scratchHeld F T live (resolutions st) 0
        = Some (if \<exists>v. setAside env F T live st v then 1 else 0))"

definition resolveInv ::
  "ResolveEnv \<Rightarrow> (nat \<Rightarrow> regNumber) \<Rightarrow> (nat \<Rightarrow> regNumber) \<Rightarrow> nat list \<Rightarrow> Machine \<Rightarrow> ResolveState \<Rightarrow> bool" where
  "resolveInv env F T live m0 st =
     (let m = execResolutions (resolutions st) m0
      in invSource F T live st \<and> invToDo F T live st \<and> invWaiting env F T live m st
         \<and> invDone F T live m st \<and> invOthers F T live m \<and> invReady F T live st
         \<and> invBlocked F T live st \<and> invSetAside env F T live st \<and> invPhase env F T live st
         \<and> invSwapped env F T live st \<and> invScratch env F T live st)"

text \<open>The number of loop iterations still possible: twice the targets to do less the ready ones.\<close>

definition regCount :: "regMaskTP \<Rightarrow> nat" where
  "regCount m = length (regsOfMask m)"

definition stepsLeft :: "ResolveState \<Rightarrow> nat" where
  "stepsLeft st = 2 * regCount (targetRegsToDo st) - regCount (targetRegsReady st)"








subsection \<open>A small target and small allocator states for concrete runs\<close>

text \<open>
  A target with four integer registers (2 to 5), tried in the order 3, 2, 4, 5, and two
  floating-point registers (6, 7).
\<close>

definition exTree :: GenTree where
  "exTree = \<lparr> IsMultiRegCall = False, GetReturnRegType = (\<lambda>_. TYP_UNDEF),
              OperIsPutArgSplit = False, GetRegType = (\<lambda>_. TYP_UNDEF),
              OperIsPutArgReg = False, TypeGet = TYP_INT,
              isCandidateLocalRef = False, lvRefCntWtd = 0, OperGet = GT_OTHER, IconValue = 0,
              varTypeGCtype = 0, DblConBits = 0, IsReuseRegVal = False \<rparr>"

definition exTarget :: LsraTarget where
  "exTarget = \<lparr> BB_ZERO_WEIGHT = 0, BB_UNITY_WEIGHT = 100, BB_MAX_WEIGHT = - 1,
                REG_INT_FIRST = 2, REG_INT_LAST = 5, REG_FP_FIRST = 6, REG_FP_LAST = 7,
                useFloatReg = (\<lambda>t. t = TYP_FLOAT \<or> t = TYP_DOUBLE),
                RefTypeIsUse = (\<lambda>t. t = RefTypeUse \<or> t = RefTypeExpUse),
                RefTypeIsDef = (\<lambda>t. t = RefTypeDef \<or> t = RefTypeParamDef \<or> t = RefTypeDummyDef
                                    \<or> t = RefTypeZeroInit),
                updateRegisterPreferences = (\<lambda>i m. m),
                FEATURE_PARTIAL_SIMD_CALLEE_SAVE = True, FEATURE_ARG_SPLIT = False,
                TARGET_64BIT = True, LargeVectorSaveType = TYP_SIMD16,
                tmpNormalizeType = (\<lambda>t. t), TARGET_X86 = False, RBM_BYTE_REGS = 0,
                lsraRegOrder = [3, 2, 4, 5], lsraRegOrderFlt = [6, 7] \<rparr>"

text \<open>The same target as a 32-bit x86 target.\<close>

definition exTargetX86 :: LsraTarget where
  "exTargetX86 = exTarget\<lparr> TARGET_64BIT := False, TARGET_X86 := True \<rparr>"

definition exInterval :: Interval where
  "exInterval = \<lparr> firstRefPosition = None, recentRefPosition = None, lastRefPosition = None,
                  isActive = False, registerPreferences = 0, relatedInterval = None,
                  assignedReg = None, registerType = TYP_INT, isLocalVar = False, isSplit = False,
                  isSpilled = False, isConstant = False, isUpperVector = False, physReg = REG_NA,
                  varNum = 0, isAssignedTo = (\<lambda>_. False), hasConflictingDefUse = False,
                  isSpecialPutArg = False, preferCalleeSave = False, getCurrentPreferences = 0 \<rparr>"

definition exRegRecord :: "nat \<Rightarrow> RegRecord" where
  "exRegRecord r = \<lparr> firstRefPosition = None, recentRefPosition = None, lastRefPosition = None,
                     isActive = False, assignedInterval = None, previousInterval = None,
                     regNum = r, isCalleeSave = False, isBusyUntilNextKill = False \<rparr>"

definition exRefPosition :: RefPosition where
  "exRefPosition = \<lparr> getInterval = None, nextRefPosition = None, treeNode = Some 0, bbNum = 1,
                     nodeLocation = 0, registerAssignment = 0, refType = RefTypeUse,
                     multiRegIdx = 0, lastUse = False, reload = False, spillAfter = False,
                     copyReg = False, moveReg = False, delayRegFree = False, RegOptional = False,
                     IsActualRef = True, getRefEndLocation = 0, isFixedRefOfReg = (\<lambda>_. False),
                     isFixedRegRef = False, getRangeEndLocation = 0, getRangeEndRef = 0 \<rparr>"

text \<open>
  The accessors of lsra.h on the examples: a RefPosition is an actual reference when it is a
  definition or a use, its end location is its location (one more when it is marked
  \<^verbatim>\<open>delayRegFree\<close>), and it is a fixed reference of a register when that register is its only
  candidate; an Interval is assigned to the register of its \<^verbatim>\<open>assignedReg\<close>, which is then its
  current preference.  The end of the range of a RefPosition is given with each example.
\<close>

definition refAccessors :: "RefPosition \<Rightarrow> RefPosition" where
  "refAccessors rp =
     rp\<lparr> IsActualRef := (refType rp = RefTypeDef \<or> refType rp = RefTypeUse),
         getRefEndLocation := (if delayRegFree rp then nodeLocation rp + 1 else nodeLocation rp),
         isFixedRefOfReg := (\<lambda>r. registerAssignment rp = genRegMask r) \<rparr>"

definition intervalAccessors :: "Interval \<Rightarrow> Interval" where
  "intervalAccessors iv =
     iv\<lparr> isAssignedTo := (\<lambda>r. assignedReg iv = Some r),
         getCurrentPreferences := (case assignedReg iv of
                                     None \<Rightarrow> registerPreferences iv
                                   | Some r \<Rightarrow> genRegMask r) \<rparr>"

text \<open>A state whose Interval 0 is a local variable and whose other Intervals are temporaries.\<close>

definition exSpillState :: LinearScan where
  "exSpillState = \<lparr> intervals = (\<lambda>i. exInterval\<lparr> isLocalVar := (i = 0) \<rparr>),
                    refPositions = (\<lambda>_. exRefPosition), physRegs = exRegRecord,
                    trees = (\<lambda>_. exTree), blockInfoWeight = (\<lambda>_. 100), curBBNum = 1, curBBStartLocation = 0,
                    inVarToRegMaps = (\<lambda>_ _. REG_STK), splitOrSpilledVars = {},
                    lvVarIndex = (\<lambda>v. v), allRegs = (\<lambda>_. 60) \<rparr>"

text \<open>
  The value of Interval \<open>i\<close> is spilled at its definition and reloaded at its use.  The third
  RefPosition is of a local variable and has no tree node of its own.
\<close>

definition exSpilledDef :: "nat \<Rightarrow> RefPosition" where
  "exSpilledDef i = refAccessors (exRefPosition\<lparr> getInterval := Some i, refType := RefTypeDef,
                                   spillAfter := True, registerAssignment := 4 \<rparr>)"

definition exReloadedUse :: "nat \<Rightarrow> RefPosition" where
  "exReloadedUse i = refAccessors (exRefPosition\<lparr> getInterval := Some i, refType := RefTypeUse,
                                    reload := True, registerAssignment := 4 \<rparr>)"

definition exUntypedLocalUse :: RefPosition where
  "exUntypedLocalUse = refAccessors (exRefPosition\<lparr> getInterval := Some 0, refType := RefTypeUse,
                                      reload := True, registerAssignment := 4, treeNode := None \<rparr>)"

text \<open>A method that returns a double and one that returns an int.\<close>

definition exNeeds :: "var_types \<Rightarrow> SpillTempNeeds" where
  "exNeeds t = \<lparr> needDoubleTmpForFPCall = False, needFloatTmpForFPCall = False, compRetType = t \<rparr>"

text \<open>
  A state for the search of a busy register at location 10.  Interval 5, whose next use is at
  location 12, asks for one of the registers 2 and 3.  Register 2 holds Interval 6, whose next
  use is at location 100, and is itself killed at location 20; register 3 holds Interval 7,
  whose next use is at location 50.  All weights are four times the block weight.  \<open>opt\<close> is
  the RegOptional flag of the request.
\<close>

definition exBusyRefs :: "bool \<Rightarrow> nat \<Rightarrow> RefPosition" where
  "exBusyRefs opt p = refAccessors
     (if p = 10 then exRefPosition\<lparr> getInterval := Some 5, nodeLocation := 10, registerAssignment := 12,
                                     refType := RefTypeDef, RegOptional := opt,
                                     nextRefPosition := Some 16,
                                     getRangeEndRef := 16, getRangeEndLocation := 12 \<rparr>
      else if p = 16 then exRefPosition\<lparr> getInterval := Some 5, nodeLocation := 12, registerAssignment := 12,
                                          getRangeEndRef := 16, getRangeEndLocation := 12 \<rparr>
      else if p = 11 then exRefPosition\<lparr> getInterval := Some 6, nodeLocation := 4, registerAssignment := 4,
                                          refType := RefTypeDef, nextRefPosition := Some 12 \<rparr>
      else if p = 12 then exRefPosition\<lparr> getInterval := Some 6, nodeLocation := 100, registerAssignment := 4 \<rparr>
      else if p = 13 then exRefPosition\<lparr> getInterval := Some 7, nodeLocation := 6, registerAssignment := 8,
                                          refType := RefTypeDef, nextRefPosition := Some 14 \<rparr>
      else if p = 14 then exRefPosition\<lparr> getInterval := Some 7, nodeLocation := 50, registerAssignment := 8 \<rparr>
      else if p = 15 then exRefPosition\<lparr> nodeLocation := 20, registerAssignment := 4, refType := RefTypeKill,
                                          treeNode := None \<rparr>
      else exRefPosition)"

definition exBusyIntervals :: "nat \<Rightarrow> Interval" where
  "exBusyIntervals i = intervalAccessors
     (if i = 5 then exInterval\<lparr> firstRefPosition := Some 10, recentRefPosition := Some 10,
                                 lastRefPosition := Some 16 \<rparr>
      else if i = 6 then exInterval\<lparr> firstRefPosition := Some 11, recentRefPosition := Some 11,
                                      lastRefPosition := Some 12, isActive := True,
                                      assignedReg := Some 2, physReg := REG 2 \<rparr>
      else if i = 7 then exInterval\<lparr> firstRefPosition := Some 13, recentRefPosition := Some 13,
                                      lastRefPosition := Some 14, isActive := True,
                                      assignedReg := Some 3, physReg := REG 3 \<rparr>
      else exInterval)"

definition exBusyRegs :: "nat \<Rightarrow> RegRecord" where
  "exBusyRegs r =
     (if r = 2 then (exRegRecord 2)\<lparr> firstRefPosition := Some 15, lastRefPosition := Some 15,
                                      assignedInterval := Some 6 \<rparr>
      else if r = 3 then (exRegRecord 3)\<lparr> assignedInterval := Some 7 \<rparr>
      else exRegRecord r)"

definition exBusyState :: "bool \<Rightarrow> LinearScan" where
  "exBusyState opt = \<lparr> intervals = exBusyIntervals, refPositions = exBusyRefs opt,
                       physRegs = exBusyRegs, trees = (\<lambda>_. exTree), blockInfoWeight = (\<lambda>_. 100), curBBNum = 1,
                       curBBStartLocation = 2, inVarToRegMaps = (\<lambda>_ _. REG_STK),
                       splitOrSpilledVars = {}, lvVarIndex = (\<lambda>v. v), allRegs = (\<lambda>_. 60) \<rparr>"

text \<open>
  A state in which the registers are exhausted at location 10.  Three RefPositions of kind
  \<open>rt\<close> lie at location 10: those of the Intervals 6 and 7 have been given the registers 2
  and 3, and the third, of Interval 5, asks for one of these two registers.  \<open>opt\<close> is the
  RegOptional flag of the request; a use of a value that is in no register has been marked
  for reload.  When \<open>rt\<close> is \<^verbatim>\<open>RefTypeDummyDef\<close> the Intervals are local variables that are
  live into the block starting at location 10, and the RefPositions have no tree node.
\<close>

definition exFullRefs :: "bool \<Rightarrow> RefType \<Rightarrow> nat \<Rightarrow> RefPosition" where
  "exFullRefs opt rt p = refAccessors
     (if p = 10 then exRefPosition\<lparr> getInterval := Some 5, nodeLocation := 10, registerAssignment := 12,
                                     refType := rt, RegOptional := opt, reload := (rt = RefTypeUse),
                                     treeNode := (if rt = RefTypeDummyDef then None else Some 0),
                                     nextRefPosition := Some 16,
                                     getRangeEndRef := 16, getRangeEndLocation := 12 \<rparr>
      else if p = 16 then exRefPosition\<lparr> getInterval := Some 5, nodeLocation := 12, registerAssignment := 12,
                                          getRangeEndRef := 16, getRangeEndLocation := 12 \<rparr>
      else if p = 11 then exRefPosition\<lparr> getInterval := Some 6, nodeLocation := 10, registerAssignment := 4,
                                          refType := rt, nextRefPosition := Some 12,
                                          treeNode := (if rt = RefTypeDummyDef then None else Some 0) \<rparr>
      else if p = 12 then exRefPosition\<lparr> getInterval := Some 6, nodeLocation := 100, registerAssignment := 4 \<rparr>
      else if p = 13 then exRefPosition\<lparr> getInterval := Some 7, nodeLocation := 10, registerAssignment := 8,
                                          refType := rt, nextRefPosition := Some 14,
                                          treeNode := (if rt = RefTypeDummyDef then None else Some 0) \<rparr>
      else if p = 14 then exRefPosition\<lparr> getInterval := Some 7, nodeLocation := 50, registerAssignment := 8 \<rparr>
      else exRefPosition)"

definition exFullIntervals :: "RefType \<Rightarrow> nat \<Rightarrow> Interval" where
  "exFullIntervals rt i = (exBusyIntervals i)\<lparr> isLocalVar := (rt = RefTypeDummyDef), varNum := i \<rparr>"

definition exFullState :: "bool \<Rightarrow> RefType \<Rightarrow> LinearScan" where
  "exFullState opt rt = \<lparr> intervals = exFullIntervals rt, refPositions = exFullRefs opt rt,
                       physRegs = (\<lambda>r. if r = 2 then (exRegRecord 2)\<lparr> assignedInterval := Some 6 \<rparr>
                                       else if r = 3 then (exRegRecord 3)\<lparr> assignedInterval := Some 7 \<rparr>
                                       else exRegRecord r),
                       trees = (\<lambda>_. exTree), blockInfoWeight = (\<lambda>_. 100), curBBNum = 1,
                       curBBStartLocation = 10, inVarToRegMaps = (\<lambda>_ _. REG_STK),
                       splitOrSpilledVars = {}, lvVarIndex = (\<lambda>v. v), allRegs = (\<lambda>_. 60) \<rparr>"

text \<open>\<^verbatim>\<open>resolveConflictingDefAndUse\<close> is not called in the examples.\<close>

definition exRcdu :: "LinearScan \<Rightarrow> nat \<Rightarrow> nat \<Rightarrow> LinearScan" where
  "exRcdu ls currentInterval rp = ls"








text \<open>The locals of the selection in these states.\<close>

definition exFreeLocalsOf :: "regMaskTP \<Rightarrow> regNumber \<Rightarrow> FreeRegLocals" where
  "exFreeLocalsOf prefs prev =
     \<lparr> selCandidates = 12, selPreferences = prefs, selRelatedPreferences = 0,
       selRelatedInterval = None, selRangeEndLocation = 12, selLastLocation = 12,
       selRangeEndRefPosition = 16, selPreferCalleeSave = False, selPrevReg = prev,
       selRegOrder = [3, 2, 4, 5] \<rparr>"

definition exFreeLocals :: FreeRegLocals where
  "exFreeLocals = exFreeLocalsOf 12 REG_NA"



text \<open>
  Three RefPositions for the free points: a last use at location 10 that holds register 2
  and is marked \<^verbatim>\<open>delayRegFree\<close>, a definition at location 11 in register 3, and a use at
  location 12 in register 4.
\<close>

definition exBody :: "regNumber \<Rightarrow> BodyEffect" where
  "exBody r = \<lparr> bodyContinues = False, bodyRegsToFree = 0, bodyDelayRegsToFree = 0,
                bodyHasInterval = True, bodyAssignedRegister = r, bodyIsUpperVector = False \<rparr>"

definition exLastUse :: "RefPosition \<times> BodyEffect" where
  "exLastUse = (refAccessors (exRefPosition\<lparr> nodeLocation := 10, lastUse := True, delayRegFree := True \<rparr>),
                exBody (REG 2))"

definition exNextDef :: "RefPosition \<times> BodyEffect" where
  "exNextDef = (refAccessors (exRefPosition\<lparr> nodeLocation := 11, refType := RefTypeDef, nextRefPosition := Some 3 \<rparr>),
                exBody (REG 3))"

definition exLaterUse :: "RefPosition \<times> BodyEffect" where
  "exLaterUse = (refAccessors (exRefPosition\<lparr> nodeLocation := 12, nextRefPosition := Some 4 \<rparr>), exBody (REG 4))"

text \<open>
  A flow graph of three blocks: the entry block 1 branches to block 2, of weight 50, and to
  block 3, of weight 100.
\<close>

definition exFlowGraph :: FlowGraph where
  "exFlowGraph = \<lparr> fgBlocks = [1, 2, 3],
                   bbPreds = (\<lambda>b. if b = 2 \<or> b = 3 then [1] else []),
                   GetSucc = (\<lambda>b. if b = 1 then [2, 3] else []),
                   getBBWeight = (\<lambda>b. if b = 2 then 50 else 100),
                   isRunRarely = (\<lambda>_. False), fgAddCodeList = 0,
                   isTraversalLayoutOrder = False \<rparr>"

text \<open>
  An edge of an XARCH target with four live variables: variables 0 and 1 exchange the
  registers 1 and 2, variable 2 goes from register 3 to the stack, and variable 3 comes from
  the stack into register 3.  No temporary register was found.
\<close>

definition exEdgeEnv :: ResolveEnv where
  "exEdgeEnv = \<lparr> TARGET_XARCH = True, isFloatReg = (\<lambda>r. 16 \<le> r), tempRegInt = REG_NA, tempRegFlt = REG_NA \<rparr>"

definition exEdgeLive :: "nat list" where
  "exEdgeLive = [0, 1, 2, 3]"

definition exEdgeFrom :: "nat \<Rightarrow> regNumber" where
  "exEdgeFrom v = (if v = 0 then REG 1 else if v = 1 then REG 2 else if v = 2 then REG 3 else REG_STK)"

definition exEdgeTo :: "nat \<Rightarrow> regNumber" where
  "exEdgeTo v = (if v = 0 then REG 2 else if v = 1 then REG 1 else if v = 2 then REG_STK else REG 3)"


section \<open>Verification\<close>

subsection \<open>Register masks\<close>


lemma bit_clear: "bit ((m::64 word) AND NOT (genRegMask r)) k = (bit m k \<and> k \<noteq> r)"
  unfolding genRegMask_def by (auto simp add: bit_and_iff bit_not_iff bit_exp_iff dest: bit_imp_le_length)

lemma bit_genRegMask: "bit (genRegMask n) k = (k = n \<and> n < 64)"
  unfolding genRegMask_def by (auto simp add: bit_exp_iff)

lemma nonzero_bit: "bit (m :: regMaskTP) r \<Longrightarrow> m \<noteq> RBM_NONE"
  unfolding RBM_NONE_def by auto


subsection \<open>Spill accounting\<close>

lemma updateMaxSpill_local: "refIsLocalVar ls rp \<Longrightarrow> updateMaxSpill tgt ls rp s = Inr s"
  by (auto simp: updateMaxSpill_def refIsLocalVar_def split: option.splits)

lemma updateMaxSpills_filter: "updateMaxSpills tgt ls rps s = updateMaxSpills tgt ls (filter (\<lambda>rp. \<not> refIsLocalVar ls rp) rps) s"
  by (induction rps arbitrary: s) (auto simp: updateMaxSpill_local split: sum.splits)


lemma unat_inc32: "unat (w::32 word) + 1 < 2 ^ 32 \<Longrightarrow> unat (w + 1) = unat w + 1"
  using unat_add_lem[of w 1] by simp

lemma unat_dec32: "0 < unat (w::32 word) \<Longrightarrow> unat (w - 1) = unat w - 1"
  using unat_minus_one[of w] by (auto simp: unat_gt_0)

lemma delta_cases: "tempSpillDelta tgt ls typ rp = 1 \<or> tempSpillDelta tgt ls typ rp = - 1 \<or> tempSpillDelta tgt ls typ rp = 0"
  by (simp add: tempSpillDelta_def)

lemma step_typed:
  assumes "typed tgt ls rp"
    and "unat (currentSpill s typ) = c"
    and "unat (maxSpill s typ) = m"
    and "tempSpillDelta tgt ls typ rp = - 1 \<Longrightarrow> 0 < c"
    and "c + 1 < 2 ^ 32"
  shows "\<exists>s'. updateMaxSpill tgt ls rp s = Inr s'
           \<and> unat (currentSpill s' typ) =
                (if tempSpillDelta tgt ls typ rp = 1 then c + 1
                 else if tempSpillDelta tgt ls typ rp = - 1 then c - 1 else c)
           \<and> unat (maxSpill s' typ) = (if tempSpillDelta tgt ls typ rp = 1 then max m (c + 1) else m)"
proof -
  obtain ty where ty: "refSpillTyp tgt ls rp = Inr ty"
    using assms(1) by (auto simp: typed_def split: sum.splits)
  show ?thesis
  proof (cases "ty = typ")
    case False
    then show ?thesis
      using ty assms(2,3)
      by (auto simp: updateMaxSpill_def tempSpillDelta_def skippedUpperVector_def Let_def
            refSpillTyp_def refIsLocalVar_def split: option.splits)
  next
    case True
    have inc: "unat (currentSpill s typ + 1) = c + 1"
      using unat_inc32[of "currentSpill s typ"] assms(2,5) by simp
    have dec: "tempSpillDelta tgt ls typ rp = - 1 \<Longrightarrow> unat (currentSpill s typ - 1) = c - 1"
      using unat_dec32[of "currentSpill s typ"] assms(2,4) by auto
    show ?thesis
      using ty True assms(2,3) inc dec
      by (auto simp: updateMaxSpill_def tempSpillDelta_def skippedUpperVector_def Let_def
            refSpillTyp_def refIsLocalVar_def word_less_nat_alt max_def split: option.splits)
  qed
qed


lemma spillRefOk_cases:
  assumes "spillRefOk tgt ls rp"
  shows "typed tgt ls rp \<or> (tempSpillDelta tgt ls typ rp = 0 \<and> updateMaxSpill tgt ls rp s = Inr s)"
  using assms unfolding spillRefOk_def typed_def updateMaxSpill_def tempSpillDelta_def
    skippedUpperVector_def refSpillTyp_def refIsLocalVar_def Let_def
  by (auto split: option.splits sum.splits if_splits)

lemma step_effect:
  assumes "spillRefOk tgt ls rp"
    and "unat (currentSpill s typ) = c"
    and "unat (maxSpill s typ) = m"
    and "tempSpillDelta tgt ls typ rp = - 1 \<Longrightarrow> 0 < c"
    and "c + 1 < 2 ^ 32"
  shows "\<exists>s'. updateMaxSpill tgt ls rp s = Inr s'
           \<and> unat (currentSpill s' typ) =
                (if tempSpillDelta tgt ls typ rp = 1 then c + 1
                 else if tempSpillDelta tgt ls typ rp = - 1 then c - 1 else c)
           \<and> unat (maxSpill s' typ) = (if tempSpillDelta tgt ls typ rp = 1 then max m (c + 1) else m)"
proof -
  from spillRefOk_cases[OF assms(1), of "typ" s] show ?thesis
  proof
    assume "typed tgt ls rp"
    from step_typed[OF this assms(2) assms(3) assms(4) assms(5)] show ?thesis .
  next
    assume "tempSpillDelta tgt ls typ rp = 0 \<and> updateMaxSpill tgt ls rp s = Inr s"
    with assms(2,3) show ?thesis by simp
  qed
qed

lemma prefixMax_Nil: "prefixMax tgt ls typ c [] = c"
  by (simp add: prefixMax_def tempSpilled_def)

lemma upt_Suc_shift: "[0..<Suc (Suc n)] = 0 # map Suc [0..<Suc n]"
  by (simp add: upt_conv_Cons map_Suc_upt del: upt_Suc)

lemma prefixMax_Cons:
  "prefixMax tgt ls typ c (rp # rps) = max c (prefixMax tgt ls typ (c + tempSpillDelta tgt ls typ rp) rps)"
proof -
  let ?f = "\<lambda>k. c + tempSpilled tgt ls typ (take k (rp # rps))"
  let ?g = "\<lambda>k. (c + tempSpillDelta tgt ls typ rp) + tempSpilled tgt ls typ (take k rps)"
  have fg: "?f (Suc k) = ?g k" for k
    by (simp add: tempSpilled_def)
  have "map ?f [0..<Suc (length (rp # rps))] = ?f 0 # map ?g [0..<Suc (length rps)]"
    by (simp only: length_Cons upt_Suc_shift list.map map_map o_def fg)
  moreover have "?f 0 = c"
    by (simp add: tempSpilled_def)
  ultimately have "prefixMax tgt ls typ c (rp # rps)
      = Max (insert c (set (map ?g [0..<Suc (length rps)])))"
    by (simp add: prefixMax_def del: upt_Suc)
  also have "\<dots> = max c (Max (set (map ?g [0..<Suc (length rps)])))"
    by (rule Max_insert) (simp_all del: upt_Suc)
  finally show ?thesis
    by (simp add: prefixMax_def)
qed

lemma trueMax_prefixMax: "trueMaxTempSpill tgt ls typ rps = prefixMax tgt ls typ 0 rps"
  by (simp add: trueMaxTempSpill_def prefixMax_def)

lemma run_effect:
  assumes "\<forall>rp \<in> set rps. spillRefOk tgt ls rp"
    and "unat (currentSpill s typ) = c"
    and "unat (maxSpill s typ) = m"
    and "c \<le> m"
    and "\<forall>k \<le> length rps. 0 \<le> int c + tempSpilled tgt ls typ (take k rps)"
    and "c + length rps < 2 ^ 32"
  shows "\<exists>s' c' m'. updateMaxSpills tgt ls rps s = Inr s'
           \<and> unat (currentSpill s' typ) = c' \<and> unat (maxSpill s' typ) = m'
           \<and> int c' = int c + tempSpilled tgt ls typ rps
           \<and> int m' = max (int m) (prefixMax tgt ls typ (int c) rps)"
  using assms
proof (induction rps arbitrary: s c m)
  case Nil
  then show ?case
    by (simp add: prefixMax_Nil tempSpilled_def)
next
  case (Cons rp rps)
  let ?d = "tempSpillDelta tgt ls typ rp"
  from Cons.prems(5) have nonneg1: "0 \<le> int c + ?d"
    by (auto dest: spec[of _ "Suc 0"] simp: tempSpilled_def)
  then have pos: "?d = - 1 \<Longrightarrow> 0 < c"
    by simp
  from Cons.prems(6) have small: "c + 1 < 2 ^ 32"
    by simp
  from Cons.prems(1) have ty: "spillRefOk tgt ls rp"
    by simp
  obtain s1 where s1: "updateMaxSpill tgt ls rp s = Inr s1"
    and c1: "unat (currentSpill s1 typ) =
                (if ?d = 1 then c + 1 else if ?d = - 1 then c - 1 else c)"
    and m1: "unat (maxSpill s1 typ) = (if ?d = 1 then max m (c + 1) else m)"
    using step_effect[OF ty Cons.prems(2) Cons.prems(3) pos small] by blast
  define c1v where "c1v = (if ?d = 1 then c + 1 else if ?d = - 1 then c - 1 else c)"
  define m1v where "m1v = (if ?d = 1 then max m (c + 1) else m)"
  have c1v_int: "int c1v = int c + ?d"
    using delta_cases[of tgt ls "typ" rp] pos by (auto simp: c1v_def)
  have le1: "c1v \<le> m1v"
    using Cons.prems(4) delta_cases[of tgt ls "typ" rp] by (auto simp: c1v_def m1v_def)
  have nonneg: "\<forall>k \<le> length rps. 0 \<le> int c1v + tempSpilled tgt ls typ (take k rps)"
  proof (intro allI impI)
    fix k assume "k \<le> length rps"
    then have "0 \<le> int c + tempSpilled tgt ls typ (take (Suc k) (rp # rps))"
      using Cons.prems(5) by (auto dest: spec[of _ "Suc k"])
    then show "0 \<le> int c1v + tempSpilled tgt ls typ (take k rps)"
      by (simp add: c1v_int tempSpilled_def)
  qed
  have small1: "c1v + length rps < 2 ^ 32"
    using Cons.prems(6) by (auto simp: c1v_def)
  obtain s' c' m' where run: "updateMaxSpills tgt ls rps s1 = Inr s'"
    and c': "unat (currentSpill s' typ) = c'" and m': "unat (maxSpill s' typ) = m'"
    and ci: "int c' = int c1v + tempSpilled tgt ls typ rps"
    and mi: "int m' = max (int m1v) (prefixMax tgt ls typ (int c1v) rps)"
    using Cons.IH[of s1 c1v m1v] Cons.prems(1) c1 m1 le1 nonneg small1
    by (auto simp: c1v_def m1v_def)
  have m1v_int: "int c1v \<le> x \<Longrightarrow> max (int m) (max (int c) x) = max (int m1v) x" for x
    using Cons.prems(4) delta_cases[of tgt ls "typ" rp] c1v_int
    by (auto simp: m1v_def max_def split: if_splits)
  have bound: "int c1v \<le> prefixMax tgt ls typ (int c1v) rps"
    by (cases rps) (simp_all add: prefixMax_Nil prefixMax_Cons)
  have "int m' = max (int m) (prefixMax tgt ls typ (int c) (rp # rps))"
    using mi m1v_int[OF bound] by (simp add: prefixMax_Cons c1v_int)
  moreover have "int c' = int c + tempSpilled tgt ls typ (rp # rps)"
    using ci by (simp add: c1v_int tempSpilled_def)
  ultimately show ?case
    using s1 run c' m' by auto
qed

lemmas exSpill_defs =
  exTree_def exTarget_def exInterval_def exRefPosition_def exSpillState_def exSpilledDef_def
  exReloadedUse_def refSpillTyp_def spillTyp_def spillTreeNode_def refIsLocalVar_def
  skippedUpperVector_def assignedRegNA_def RBM_NONE_def refAccessors_def exUntypedLocalUse_def

text \<open>
  C10: \<^verbatim>\<open>updateMaxSpill\<close> leaves both counters of every type as they are on a RefPosition
  whose Interval is a local variable, whatever its spill, reload and RegOptional flags; hence
  the counters at the end of the stream are those of the stream with the RefPositions of
  local variables removed: only temporaries are counted.
\<close>

theorem updateMaxSpill_ignores_local_vars:
  "(refIsLocalVar ls rp \<longrightarrow> updateMaxSpill tgt ls rp s = Inr s)
   \<and> updateMaxSpills tgt ls rps s
       = updateMaxSpills tgt ls (filter (\<lambda>rp. \<not> refIsLocalVar ls rp) rps) s"
  using updateMaxSpill_local[of ls rp tgt s] updateMaxSpills_filter[of tgt ls rps s] by blast

theorem updateMaxSpill_ignores_local_vars_witness:
  "refIsLocalVar exSpillState (exSpilledDef 0)
   \<and> updateMaxSpill exTarget exSpillState (exSpilledDef 0) initMaxSpill = Inr initMaxSpill
   \<and> updateMaxSpills exTarget exSpillState [exSpilledDef 0, exSpilledDef 2] initMaxSpill
       = updateMaxSpills exTarget exSpillState [exSpilledDef 2] initMaxSpill"
  using updateMaxSpill_ignores_local_vars
    [of exSpillState "exSpilledDef 0" exTarget initMaxSpill "[exSpilledDef 0, exSpilledDef 2]"]
  by (simp add: exSpill_defs)

text \<open>
  C6, as stated, fails in two ways.  A local variable of type \<^verbatim>\<open>TYP_INT\<close> that is spilled and
  then reloaded makes the claimed maximum 1, while \<^verbatim>\<open>maxSpill[TYP_INT]\<close> stays 0.  And on an
  x86 target, for a method that returns a double, the count of \<^verbatim>\<open>TYP_DOUBLE\<close> is 1 on an
  empty stream, on which nothing is spilled.
\<close>

theorem maxSpill_local_var_counterexample:
  "claimedMaxSpill exTarget exSpillState TYP_INT [exSpilledDef 0, exReloadedUse 0] = 1
   \<and> map_sum id (\<lambda>r. maxSpill (fst r) TYP_INT)
         (writeBackMaxSpill exTarget exSpillState (exNeeds TYP_INT) [exSpilledDef 0, exReloadedUse 0])
       = Inr 0
   \<and> claimedMaxSpill exTargetX86 exSpillState TYP_DOUBLE [] = 0
   \<and> map_sum id (\<lambda>r. maxSpill (fst r) TYP_DOUBLE)
         (writeBackMaxSpill exTargetX86 exSpillState (exNeeds TYP_DOUBLE) [])
       = Inr 1"
  by code_simp

lemma prefixMax_le: "prefixMax tgt ls typ c rps \<le> c + int (length rps)"
proof (induction rps arbitrary: c)
  case Nil
  then show ?case by (simp add: prefixMax_Nil)
next
  case (Cons rp rps)
  define d where "d = tempSpillDelta tgt ls typ rp"
  have e: "prefixMax tgt ls typ c (rp # rps) = max c (prefixMax tgt ls typ (c + d) rps)"
    unfolding d_def by (rule prefixMax_Cons)
  have ih: "prefixMax tgt ls typ (c + d) rps \<le> (c + d) + int (length rps)"
    by (rule Cons.IH)
  have "d = 1 \<or> d = - 1 \<or> d = 0"
    unfolding d_def by (rule delta_cases)
  then have "d \<le> 1"
    by linarith
  with ih show ?case
    unfolding e by simp
qed

lemma allTypes_all: "typ \<in> set allTypes"
  by (cases "typ") (simp_all add: allTypes_def)

lemma recordMaxSpill_effect:
  assumes "unat (maxSpill s typ) + 1 < 2 ^ 32"
  shows "int (unat (maxSpill (fst (recordMaxSpill tgt needs s)) typ))
           = int (unat (maxSpill s typ)) + extraSpillTemp tgt needs typ"
proof -
  have inc: "int (unat (maxSpill s typ + 1)) = int (unat (maxSpill s typ)) + 1"
    by (simp only: unat_inc32[OF assms] of_nat_add of_nat_1)
  show ?thesis
  proof (cases "extraSpillTemp tgt needs typ = 1")
    case True
    then have "maxSpill (fst (recordMaxSpill tgt needs s)) typ = maxSpill s typ + 1"
      unfolding recordMaxSpill_def extraSpillTemp_def Let_def
      by (auto split: if_splits)
    with inc True show ?thesis by simp
  next
    case False
    then have z: "extraSpillTemp tgt needs typ = 0"
      unfolding extraSpillTemp_def by (simp split: if_splits)
    then have "maxSpill (fst (recordMaxSpill tgt needs s)) typ = maxSpill s typ"
      unfolding recordMaxSpill_def extraSpillTemp_def Let_def
      by (auto split: if_splits)
    with z show ?thesis by simp
  qed
qed

lemma recordMaxSpill_calls:
  assumes "maxSpill (fst (recordMaxSpill tgt needs s)) typ \<noteq> 0"
  shows "(typ, maxSpill (fst (recordMaxSpill tgt needs s)) typ) \<in> set (snd (recordMaxSpill tgt needs s))"
  using assms allTypes_all[of "typ"] unfolding recordMaxSpill_def Let_def
  by (auto simp: image_iff)

text \<open>
  C6, amended: for every type, on a stream on which \<^verbatim>\<open>updateMaxSpill\<close> follows no null pointer,
  on which no reload precedes its spill (the count of outstanding spilled temporaries never
  goes below zero) and which has fewer than \<open>2^32 - 1\<close> RefPositions, the write-back pass
  succeeds and \<^verbatim>\<open>maxSpill\<close> of that type is the true maximum, over all prefixes of the stream,
  of the number of temporaries (values that are not local variables) of that type that are
  spilled and neither reloaded nor used from memory by an unallocated RegOptional reference,
  plus the one temporary that an x86 target adds for a double or float call or return value;
  a count that is not zero is handed to \<^verbatim>\<open>tmpPreAllocateTemps\<close>.
\<close>

theorem maxSpill_is_true_maximum_of_temporaries:
  assumes "\<forall>rp \<in> set rps. spillRefOk tgt ls rp"
    and "\<forall>k \<le> length rps. 0 \<le> tempSpilled tgt ls typ (take k rps)"
    and "length rps + 1 < 2 ^ 32"
  shows "\<exists>s' calls. writeBackMaxSpill tgt ls needs rps = Inr (s', calls)
           \<and> uint (maxSpill s' typ) = trueMaxTempSpill tgt ls typ rps + extraSpillTemp tgt needs typ
           \<and> (maxSpill s' typ \<noteq> 0 \<longrightarrow> (typ, maxSpill s' typ) \<in> set calls)"
proof -
  have c0: "unat (currentSpill initMaxSpill typ) = 0" and m0: "unat (maxSpill initMaxSpill typ) = 0"
    by (simp_all add: initMaxSpill_def)
  obtain s m' where run: "updateMaxSpills tgt ls rps initMaxSpill = Inr s"
    and m': "unat (maxSpill s typ) = m'"
    and mi: "int m' = max (int 0) (prefixMax tgt ls typ (int 0) rps)"
    using run_effect[OF assms(1) c0 m0] assms(2,3) by auto
  have "0 \<le> prefixMax tgt ls typ 0 rps"
    by (cases rps) (simp_all add: prefixMax_Nil prefixMax_Cons)
  then have tm: "int m' = trueMaxTempSpill tgt ls typ rps"
    using mi by (simp add: trueMax_prefixMax)
  have le: "trueMaxTempSpill tgt ls typ rps \<le> int (length rps)"
    using prefixMax_le[of tgt ls "typ" 0 rps] by (simp add: trueMax_prefixMax)
  have small: "unat (maxSpill s typ) + 1 < 2 ^ 32"
    using m' tm le assms(3) by simp
  obtain s' calls where rec: "recordMaxSpill tgt needs s = (s', calls)"
    by (cases "recordMaxSpill tgt needs s")
  have "writeBackMaxSpill tgt ls needs rps = Inr (s', calls)"
    using run rec by (simp add: writeBackMaxSpill_def)
  moreover have "int (unat (maxSpill s' typ))
                   = trueMaxTempSpill tgt ls typ rps + extraSpillTemp tgt needs typ"
    using recordMaxSpill_effect[OF small, of tgt needs] rec m' tm by simp
  then have "uint (maxSpill s' typ) = trueMaxTempSpill tgt ls typ rps + extraSpillTemp tgt needs typ"
    by (metis of_nat_unat)
  moreover have "maxSpill s' typ \<noteq> 0 \<longrightarrow> (typ, maxSpill s' typ) \<in> set calls"
    using recordMaxSpill_calls[of tgt needs s "typ"] rec by simp
  ultimately show ?thesis
    by blast
qed


theorem maxSpill_is_true_maximum_of_temporaries_witness:
  "spillRefOk exTarget exSpillState (exSpilledDef 2)
   \<and> spillRefOk exTarget exSpillState exUntypedLocalUse
   \<and> \<not> typed exTarget exSpillState exUntypedLocalUse
   \<and> spillRefOk exTarget exSpillState (exReloadedUse 2)
   \<and> 0 \<le> tempSpilled exTarget exSpillState TYP_INT []
   \<and> 0 \<le> tempSpilled exTarget exSpillState TYP_INT [exSpilledDef 2]
   \<and> 0 \<le> tempSpilled exTarget exSpillState TYP_INT [exSpilledDef 2, exUntypedLocalUse]
   \<and> 0 \<le> tempSpilled exTarget exSpillState TYP_INT [exSpilledDef 2, exUntypedLocalUse, exReloadedUse 2]
   \<and> trueMaxTempSpill exTarget exSpillState TYP_INT
         [exSpilledDef 2, exUntypedLocalUse, exReloadedUse 2] = 1
   \<and> extraSpillTemp exTarget (exNeeds TYP_INT) TYP_INT = 0
   \<and> (\<exists>s' calls. writeBackMaxSpill exTarget exSpillState (exNeeds TYP_INT)
                      [exSpilledDef 2, exUntypedLocalUse, exReloadedUse 2] = Inr (s', calls)
          \<and> uint (maxSpill s' TYP_INT) = 1
          \<and> (TYP_INT, maxSpill s' TYP_INT) \<in> set calls)"
proof -
  let ?rps = "[exSpilledDef 2, exUntypedLocalUse, exReloadedUse 2]"
  have ok: "spillRefOk exTarget exSpillState (exSpilledDef 2)"
    "spillRefOk exTarget exSpillState exUntypedLocalUse"
    "\<not> typed exTarget exSpillState exUntypedLocalUse"
    "spillRefOk exTarget exSpillState (exReloadedUse 2)"
    by code_simp+
  have ts: "0 \<le> tempSpilled exTarget exSpillState TYP_INT []"
    "0 \<le> tempSpilled exTarget exSpillState TYP_INT [exSpilledDef 2]"
    "0 \<le> tempSpilled exTarget exSpillState TYP_INT [exSpilledDef 2, exUntypedLocalUse]"
    "0 \<le> tempSpilled exTarget exSpillState TYP_INT ?rps"
    by code_simp+
  have mx: "trueMaxTempSpill exTarget exSpillState TYP_INT ?rps = 1"
    "extraSpillTemp exTarget (exNeeds TYP_INT) TYP_INT = 0"
    by code_simp+
  have h1: "\<forall>rp \<in> set ?rps. spillRefOk exTarget exSpillState rp"
    using ok by simp
  have h2: "\<forall>k \<le> length ?rps. 0 \<le> tempSpilled exTarget exSpillState TYP_INT (take k ?rps)"
  proof (intro allI impI)
    fix k assume "k \<le> length ?rps"
    then have "k = 0 \<or> k = 1 \<or> k = 2 \<or> k = 3" by auto
    then show "0 \<le> tempSpilled exTarget exSpillState TYP_INT (take k ?rps)"
      using ts by (auto simp: numeral_2_eq_2 numeral_3_eq_3)
  qed
  have h3: "length ?rps + 1 < 2 ^ 32" by simp
  from maxSpill_is_true_maximum_of_temporaries[OF h1 h2 h3, of "exNeeds TYP_INT"]
  obtain s' calls where
    run: "writeBackMaxSpill exTarget exSpillState (exNeeds TYP_INT) ?rps = Inr (s', calls)"
    and m: "uint (maxSpill s' TYP_INT)
              = trueMaxTempSpill exTarget exSpillState TYP_INT ?rps
                + extraSpillTemp exTarget (exNeeds TYP_INT) TYP_INT"
    and c: "maxSpill s' TYP_INT \<noteq> 0 \<longrightarrow> (TYP_INT, maxSpill s' TYP_INT) \<in> set calls"
    by blast
  from m mx have m1: "uint (maxSpill s' TYP_INT) = 1" by simp
  then have "maxSpill s' TYP_INT \<noteq> 0" by auto
  with c have "(TYP_INT, maxSpill s' TYP_INT) \<in> set calls" by simp
  with run m1 ok ts mx show ?thesis by blast
qed

subsection \<open>The search for a register to spill\<close>

lemma step_eval:
  "allocateBusyReg_step tgt ls refPosition aip candidates rn st =
     (case evalCandidate tgt ls refPosition candidates rn of
        CandError e \<Rightarrow> Inl e
      | CandSkip \<Rightarrow> Inr st
      | Cand w l p \<Rightarrow> Inr (considerCandidate aip rn w l p st))"
  by (auto simp: allocateBusyReg_step_def evalCandidate_def considerCandidate_def Let_def
      split: sum.splits prod.splits bool.splits option.splits)



lemma consider_cases:
  "considerCandidate aip rn w l p st = st
   \<or> considerCandidate aip rn w l p st
       = \<lparr> farthestRefPhysRegRecord = Some rn, farthestLocation = l, farthestRefPosWeight = w \<rparr>"
  by (simp add: considerCandidate_def)





lemma loop_selected:
  "allocateBusyReg_loop tgt ls rp aip cands regs st = Inr st' \<Longrightarrow>
   st' = st \<or> (\<exists>rn \<in> set regs. \<exists>p. farthestRefPhysRegRecord st' = Some rn
                 \<and> evalCandidate tgt ls rp cands rn
                     = Cand (farthestRefPosWeight st') (farthestLocation st') p)"
proof (induction regs arbitrary: st)
  case Nil
  then show ?case by simp
next
  case (Cons r regs)
  show ?case
  proof (cases "evalCandidate tgt ls rp cands r")
    case (CandError e)
    with Cons.prems show ?thesis by (simp add: step_eval)
  next
    case CandSkip
    with Cons.prems Cons.IH[of st] show ?thesis by (auto simp: step_eval)
  next
    case (Cand w l p)
    let ?st1 = "considerCandidate aip r w l p st"
    from Cand Cons.prems have run: "allocateBusyReg_loop tgt ls rp aip cands regs ?st1 = Inr st'"
      by (simp add: step_eval)
    from Cons.IH[OF run] consider_cases[of aip r w l p st] Cand show ?thesis
      by auto
  qed
qed

lemma consider_keeps_selection:
  "farthestRefPhysRegRecord st \<noteq> None \<Longrightarrow>
   farthestRefPhysRegRecord (considerCandidate aip rn w l p st) \<noteq> None"
  by (simp add: considerCandidate_def)

lemma loop_keeps_selection:
  "allocateBusyReg_loop tgt ls rp aip cands regs st = Inr st' \<Longrightarrow>
   farthestRefPhysRegRecord st \<noteq> None \<Longrightarrow> farthestRefPhysRegRecord st' \<noteq> None"
proof (induction regs arbitrary: st)
  case Nil
  then show ?case by simp
next
  case (Cons r regs)
  show ?case
  proof (cases "evalCandidate tgt ls rp cands r")
    case (CandError e)
    with Cons.prems show ?thesis by (simp add: step_eval)
  next
    case CandSkip
    with Cons.prems Cons.IH[of st] show ?thesis by (auto simp: step_eval)
  next
    case (Cand w l p)
    with Cons.prems have "allocateBusyReg_loop tgt ls rp aip cands regs
                            (considerCandidate aip r w l p st) = Inr st'"
      by (simp add: step_eval)
    from Cons.IH[OF this consider_keeps_selection[OF Cons.prems(2)]] show ?thesis .
  qed
qed

lemma loop_profitable_none:
  "allocateBusyReg_loop tgt ls rp True cands regs st = Inr st' \<Longrightarrow>
   farthestRefPhysRegRecord st = None \<Longrightarrow>
   (farthestRefPhysRegRecord st' = None)
     = (\<forall>rn \<in> set regs. isCand (evalCandidate tgt ls rp cands rn) \<longrightarrow>
          farthestRefPosWeight st \<le> candWeight (evalCandidate tgt ls rp cands rn))"
proof (induction regs arbitrary: st)
  case Nil
  then show ?case by simp
next
  case (Cons r regs)
  show ?case
  proof (cases "evalCandidate tgt ls rp cands r")
    case (CandError e)
    with Cons.prems show ?thesis by (simp add: step_eval)
  next
    case CandSkip
    with Cons.prems Cons.IH[of st] show ?thesis by (auto simp: step_eval isCand_def)
  next
    case (Cand w l p)
    let ?st1 = "considerCandidate True r w l p st"
    from Cand Cons.prems have run: "allocateBusyReg_loop tgt ls rp True cands regs ?st1 = Inr st'"
      by (simp add: step_eval)
    show ?thesis
    proof (cases "w < farthestRefPosWeight st")
      case True
      then have "farthestRefPhysRegRecord ?st1 \<noteq> None"
        by (auto simp: considerCandidate_def)
      from loop_keeps_selection[OF run this] True Cand show ?thesis
        by (auto simp: isCand_def candWeight_def)
    next
      case False
      then have "?st1 = st"
        using Cons.prems(2) by (auto simp: considerCandidate_def)
      with run Cons.IH[of st] Cons.prems(2) False Cand show ?thesis
        by (auto simp: isCand_def candWeight_def)
    qed
  qed
qed


subsection \<open>The state after an eviction\<close>

lemma setIntervalAsSpilled_ok:
  assumes "\<not> (FEATURE_PARTIAL_SIMD_CALLEE_SAVE tgt \<and> isUpperVector (intervals ls i))"
  shows "\<exists>ls'. setIntervalAsSpilled tgt ls i = Inr ls'
           \<and> isSpilled (intervals ls' i)
           \<and> refPositions ls' = refPositions ls
           \<and> physRegs ls' = physRegs ls
           \<and> (\<forall>j. intervals ls' j = (if j = i then (intervals ls i)\<lparr> isSpilled := True \<rparr> else intervals ls j))"
  using assms by (auto simp: setIntervalAsSpilled_def Let_def)









lemma allocateBusyReg_none:
  assumes "allocateBusyReg_search tgt ls cur rp aip = Inr st"
    and "farthestRefPhysRegRecord st = None"
  shows "allocateBusyReg tgt ls cur rp aip
           = Inr (REG_NA, ls\<lparr> refPositions := (refPositions ls)
                              (rp := (refPositions ls rp)\<lparr> registerAssignment := RBM_NONE \<rparr>) \<rparr>)"
  using assms by (simp add: allocateBusyReg_def)

lemma evalCandidate_error:
  "evalCandidate tgt ls refPosition cands rn = CandError e \<Longrightarrow> e = NullDereference"
  unfolding evalCandidate_def isSpillCandidate_def canSpillReg_def isRegInUse_def getWeight_def Let_def
  by (auto split: if_splits sum.splits prod.splits bool.splits option.splits)

lemma loop_error:
  "allocateBusyReg_loop tgt ls rp aip cands regs st = Inl e \<Longrightarrow> e = NullDereference"
proof (induction regs arbitrary: st)
  case Nil
  then show ?case by simp
next
  case (Cons r regs)
  then show ?case
    by (auto simp: step_eval split: candEval.splits dest: evalCandidate_error)
qed

lemma search_error:
  "allocateBusyReg_search tgt ls cur rp aip = Inl e \<Longrightarrow> e = NullDereference"
  unfolding allocateBusyReg_search_def Let_def getWeight_def
  by (auto split: if_splits sum.splits option.splits dest: loop_error)

lemma setIntervalAsSpilled_result:
  "setIntervalAsSpilled tgt ls i = Inr ls' \<Longrightarrow>
   isSpilled (intervals ls' i) \<and> refPositions ls' = refPositions ls"
  unfolding setIntervalAsSpilled_def Let_def
  by (auto split: option.splits if_splits)

lemma setIntervalAsSpilled_error:
  "setIntervalAsSpilled tgt ls i = Inl e \<Longrightarrow> e = NullDereference"
  unfolding setIntervalAsSpilled_def Let_def
  by (auto split: option.splits if_splits)

lemma loop_no_candidate:
  assumes "allocateBusyReg_loop tgt ls rp aip cands regs st = Inr st'"
    and "\<forall>rn \<in> set regs. \<not> isCand (evalCandidate tgt ls rp cands rn)"
  shows "st' = st"
  using loop_selected[OF assms(1)] assms(2) by (auto simp: isCand_def)

lemma search_none:
  assumes s: "allocateBusyReg_search tgt ls cur rp (RegOptional (refPositions ls rp)) = Inr st"
    and np: "noProfitableSpillCandidate tgt ls cur rp"
  shows "farthestRefPhysRegRecord st = None"
proof (cases "RegOptional (refPositions ls rp)")
  case True
  from s True obtain w where
    w: "getWeight tgt ls (refPositions ls rp) = Inr w"
    and loop: "allocateBusyReg_loop tgt ls (refPositions ls rp) True (busyCandidates ls cur rp)
                 (Registers tgt (registerType (intervals ls cur)))
                 \<lparr> farthestRefPhysRegRecord = None, farthestLocation = MinLocation,
                   farthestRefPosWeight = w \<rparr> = Inr st"
    by (auto simp: allocateBusyReg_search_def Let_def split: sum.splits)
  have "\<forall>rn \<in> set (Registers tgt (registerType (intervals ls cur))).
          isCand (evalCandidate tgt ls (refPositions ls rp) (busyCandidates ls cur rp) rn)
          \<longrightarrow> w \<le> candWeight (evalCandidate tgt ls (refPositions ls rp) (busyCandidates ls cur rp) rn)"
  proof (intro ballI impI)
    fix rn
    assume rn: "rn \<in> set (Registers tgt (registerType (intervals ls cur)))"
      and c: "isCand (evalCandidate tgt ls (refPositions ls rp) (busyCandidates ls cur rp) rn)"
    from c obtain x l p where
      e: "evalCandidate tgt ls (refPositions ls rp) (busyCandidates ls cur rp) rn = Cand x l p"
      by (auto simp: isCand_def split: candEval.splits)
    from np[unfolded noProfitableSpillCandidate_def, rule_format, OF rn] e w have "w < x"
      by simp
    with e show "w \<le> candWeight (evalCandidate tgt ls (refPositions ls rp) (busyCandidates ls cur rp) rn)"
      by (simp add: candWeight_def)
  qed
  with loop_profitable_none[OF loop] show ?thesis by simp
next
  case False
  with s have loop: "allocateBusyReg_loop tgt ls (refPositions ls rp) False (busyCandidates ls cur rp)
                 (Registers tgt (registerType (intervals ls cur)))
                 \<lparr> farthestRefPhysRegRecord = None, farthestLocation = MinLocation,
                   farthestRefPosWeight = BB_MAX_WEIGHT tgt \<rparr> = Inr st"
    by (simp add: allocateBusyReg_search_def Let_def)
  have "\<forall>rn \<in> set (Registers tgt (registerType (intervals ls cur))).
          \<not> isCand (evalCandidate tgt ls (refPositions ls rp) (busyCandidates ls cur rp) rn)"
  proof (intro ballI)
    fix rn
    assume rn: "rn \<in> set (Registers tgt (registerType (intervals ls cur)))"
    from np[unfolded noProfitableSpillCandidate_def, rule_format, OF rn] False
    show "\<not> isCand (evalCandidate tgt ls (refPositions ls rp) (busyCandidates ls cur rp) rn)"
      by (simp add: isCand_def split: candEval.splits)
  qed
  from loop_no_candidate[OF loop this] show ?thesis by simp
qed

subsection \<open>\<^verbatim>\<open>allocateBusyReg\<close> and the references without register: the outcome\<close>


lemmas exBusy_defs = exBusyState_def exBusyRefs_def exBusyIntervals_def exBusyRegs_def
  exRefPosition_def exInterval_def exRegRecord_def exTarget_def exTree_def
  refAccessors_def intervalAccessors_def

lemmas busy_defs = evalCandidate_def isSpillCandidate_def canSpillReg_def getWeight_def
  isRegInUse_def conflictingFixedRegReference_def isRefPositionActive_def
  getNextRefLocation_def getNextRefPosition_def genRegMask_def MinLocation_def MaxLocation_def
  busyCandidates_def RBM_NONE_def

lemma exRegisters: "Registers exTarget TYP_INT = [2, 3, 4, 5]"
  by (simp add: Registers_def exTarget_def upt_conv_Cons)


lemma exCands: "busyCandidates (exBusyState opt) 5 10 = 12"
  by (simp add: busy_defs exBusy_defs)

lemma exRef10: "refPositions (exBusyState opt) 10 = exBusyRefs opt 10"
  by (simp add: exBusyState_def)

lemma exType: "registerType (intervals (exBusyState opt) 5) = TYP_INT"
  by (simp add: exBusy_defs)

lemma exEval2: "evalCandidate exTarget (exBusyState opt) (exBusyRefs opt 10) 12 2 = Cand 400 20 False"
  by (simp add: busy_defs exBusy_defs)

lemma exEval3: "evalCandidate exTarget (exBusyState opt) (exBusyRefs opt 10) 12 3 = Cand 400 50 False"
  by (simp add: busy_defs exBusy_defs)

lemma exEval4: "evalCandidate exTarget (exBusyState opt) (exBusyRefs opt 10) 12 4 = CandSkip"
  by (simp add: busy_defs exBusy_defs)

lemma exEval5: "evalCandidate exTarget (exBusyState opt) (exBusyRefs opt 10) 12 5 = CandSkip"
  by (simp add: busy_defs exBusy_defs)

lemmas exEvals = exEval2 exEval3 exEval4 exEval5


lemma exOwnWeight: "getWeight exTarget (exBusyState opt) (exBusyRefs opt 10) = Inr 400"
  by (simp add: busy_defs exBusy_defs)

lemma exSearchOptional:
  "allocateBusyReg_search exTarget (exBusyState True) 5 10 True
     = Inr \<lparr> farthestRefPhysRegRecord = None, farthestLocation = 0, farthestRefPosWeight = 400 \<rparr>"
  by (simp add: allocateBusyReg_search_def exType exRegisters exCands exRef10 step_eval exEvals
        considerCandidate_def MinLocation_def exOwnWeight)





text \<open>
  C5, amended.  Let an actual reference (a definition or a use) find no free register
  (\<^verbatim>\<open>tryAllocateFreeReg\<close>, when an allocation is attempted at all, returns \<^verbatim>\<open>REG_NA\<close>) and no
  profitable spill candidate, and let the allocation follow no null pointer.  If the
  reference is mandatory, the allocation fails a \<^verbatim>\<open>noway_assert\<close>.  If it is RegOptional, the
  allocation is declined: no register is returned, the register assignment of the
  RefPosition is cleared to none, its reload flag is cleared, its Interval is marked
  spilled, and the RefPosition meets the test under which the write-back pass takes its
  value as used from its memory location.
\<close>

theorem unallocatable_reference_outcome:
  assumes actual: "IsActualRef (refPositions lsf rp)"
    and nofree: "(if wantsAllocation tgt ls cur rp then tryFree ls cur rp
                  else Some (Inr (REG_NA, ls))) = Some (Inr (REG_NA, lsf))"
    and np: "noProfitableSpillCandidate tgt lsf cur rp"
    and nonull: "allocateUnassigned tgt tryFree ls cur rp \<noteq> Some (Inl NullDereference)"
  shows "if RegOptional (refPositions lsf rp)
         then \<exists>ls'. allocateUnassigned tgt tryFree ls cur rp = Some (Inr (REG_NA, ls'))
                \<and> registerAssignment (refPositions ls' rp) = RBM_NONE
                \<and> \<not> reload (refPositions ls' rp)
                \<and> isSpilled (intervals ls' cur)
                \<and> usedFromMemory (refPositions ls' rp)
         else allocateUnassigned tgt tryFree ls cur rp = Some (Inl NowayAssert)"
proof -
  let ?opt = "RegOptional (refPositions lsf rp)"
  let ?ls2 = "lsf\<lparr> refPositions := (refPositions lsf)
                     (rp := (refPositions lsf rp)\<lparr> registerAssignment := RBM_NONE \<rparr>) \<rparr>"
  let ?busy = "if wantsAllocation tgt ls cur rp
               then allocateBusyReg tgt lsf cur rp ?opt else Inr (REG_NA, lsf)"
  have unfold: "allocateUnassigned tgt tryFree ls cur rp =
          Some (case ?busy of
                  Inl e \<Rightarrow> Inl e
                | Inr (r', ls2) \<Rightarrow>
                    (if r' \<noteq> REG_NA then Inr (r', ls2)
                     else if \<not> RegOptional (refPositions ls2 rp) then Inl NowayAssert
                     else (case setIntervalAsSpilled tgt
                                  (ls2\<lparr> refPositions := (refPositions ls2)
                                        (rp := (refPositions ls2 rp)
                                           \<lparr> registerAssignment := RBM_NONE, reload := False \<rparr>) \<rparr>)
                                  cur of
                             Inl e \<Rightarrow> Inl e
                           | Inr ls3 \<Rightarrow> Inr (REG_NA, ls3))))"
    using nofree actual by (simp add: allocateUnassigned_def Let_def)
  have busy: "\<exists>ls2. ?busy = Inr (REG_NA, ls2) \<and> RegOptional (refPositions ls2 rp) = ?opt
                \<and> intervals ls2 = intervals lsf"
  proof (cases "wantsAllocation tgt ls cur rp")
    case False
    then show ?thesis by simp
  next
    case True
    have "\<exists>st. allocateBusyReg_search tgt lsf cur rp ?opt = Inr st"
    proof (cases "allocateBusyReg_search tgt lsf cur rp ?opt")
      case (Inl e)
      with search_error[OF Inl] have "allocateBusyReg tgt lsf cur rp ?opt = Inl NullDereference"
        by (simp add: allocateBusyReg_def)
      with unfold True nonull show ?thesis by simp
    next
      case (Inr st)
      then show ?thesis by simp
    qed
    then obtain st where st: "allocateBusyReg_search tgt lsf cur rp ?opt = Inr st" ..
    from allocateBusyReg_none[OF st search_none[OF st np]] True show ?thesis
      by simp
  qed
  then obtain ls2 where b: "?busy = Inr (REG_NA, ls2)"
    and o2: "RegOptional (refPositions ls2 rp) = ?opt" and i2: "intervals ls2 = intervals lsf"
    by blast
  show ?thesis
  proof (cases ?opt)
    case False
    with unfold b o2 show ?thesis by simp
  next
    case True
    let ?ls2' = "ls2\<lparr> refPositions := (refPositions ls2)
                       (rp := (refPositions ls2 rp)\<lparr> registerAssignment := RBM_NONE, reload := False \<rparr>) \<rparr>"
    have u2: "allocateUnassigned tgt tryFree ls cur rp =
          Some (case setIntervalAsSpilled tgt ?ls2' cur of
                  Inl e \<Rightarrow> Inl e
                | Inr ls3 \<Rightarrow> Inr (REG_NA, ls3))"
      using unfold b o2 True by simp
    have "\<exists>ls3. setIntervalAsSpilled tgt ?ls2' cur = Inr ls3"
    proof (cases "setIntervalAsSpilled tgt ?ls2' cur")
      case (Inl e)
      with setIntervalAsSpilled_error[OF Inl] u2 nonull show ?thesis by simp
    next
      case (Inr ls3)
      then show ?thesis by simp
    qed
    then obtain ls3 where s3: "setIntervalAsSpilled tgt ?ls2' cur = Inr ls3" ..
    from setIntervalAsSpilled_result[OF s3]
    have sp: "isSpilled (intervals ls3 cur)" and r3: "refPositions ls3 = refPositions ?ls2'"
      by simp_all
    have "allocateUnassigned tgt tryFree ls cur rp = Some (Inr (REG_NA, ls3))"
      using u2 s3 by simp
    moreover have "registerAssignment (refPositions ls3 rp) = RBM_NONE"
      "\<not> reload (refPositions ls3 rp)" "usedFromMemory (refPositions ls3 rp)"
      using r3 o2 True by (simp_all add: usedFromMemory_def assignedRegNA_def)
    ultimately show ?thesis
      using True sp by simp
  qed
qed

lemmas exFull_defs = exFullState_def exFullRefs_def exFullIntervals_def exBusyIntervals_def
  exFreeLocals_def exFreeLocalsOf_def refAccessors_def intervalAccessors_def exInterval_def
  exRefPosition_def exRegRecord_def exTarget_def exRcdu_def

lemma exFull_locals:
  "tryAllocateFreeReg_locals 0 exTarget exRcdu (exFullState opt rt) 5 10
     = Some (Inr (Selection exFreeLocals (exFullState opt rt)))"
  by (simp add: tryAllocateFreeReg_locals_def initialCandidates_def Let_def exFull_defs
        genMaxOneBit_def getNextRefLocation_def getNextRefPosition_def RBM_NONE_def)

lemma exFull_select:
  "tryAllocateFreeReg_select exTarget (exFullState True RefTypeUse) exFreeLocals 5
       (refPositions (exFullState True RefTypeUse) 10)
     = Inr (NoBreak, \<lparr> candidatesLeft = 0, bestScore = 0, bestLocation = 0,
                        availablePhysRegInterval = None, unassignInterval = False \<rparr>)"
  "tryAllocateFreeReg_select exTarget (exFullState False RefTypeUse) exFreeLocals 5
       (refPositions (exFullState False RefTypeUse) 10)
     = Inr (NoBreak, \<lparr> candidatesLeft = 0, bestScore = 0, bestLocation = 0,
                        availablePhysRegInterval = None, unassignInterval = False \<rparr>)"
  "tryAllocateFreeReg_select exTarget (exFullState False RefTypeDummyDef) exFreeLocals 5
       (refPositions (exFullState False RefTypeDummyDef) 10)
     = Inr (NoBreak, \<lparr> candidatesLeft = 0, bestScore = 0, bestLocation = 0,
                        availablePhysRegInterval = None, unassignInterval = False \<rparr>)"
  by code_simp+

lemma exFull_nofree:
  "tryAllocateFreeReg 0 exTarget exRcdu (exFullState True RefTypeUse) 5 10
     = Some (Inr (REG_NA, exFullState True RefTypeUse))"
  "tryAllocateFreeReg 0 exTarget exRcdu (exFullState False RefTypeUse) 5 10
     = Some (Inr (REG_NA, exFullState False RefTypeUse))"
  "tryAllocateFreeReg 0 exTarget exRcdu (exFullState False RefTypeDummyDef) 5 10
     = Some (Inr (REG_NA, exFullState False RefTypeDummyDef))"
  by (simp_all add: tryAllocateFreeReg_def exFull_locals tryAllocateFreeReg_selection_def
        exFull_select tryAllocateFreeReg_assign_def)

lemma exFull_facts:
  "wantsAllocation exTarget (exFullState True RefTypeUse) 5 10"
  "wantsAllocation exTarget (exFullState False RefTypeUse) 5 10"
  "wantsAllocation exTarget (exFullState False RefTypeDummyDef) 5 10"
  "noProfitableSpillCandidate exTarget (exFullState True RefTypeUse) 5 10"
  "noProfitableSpillCandidate exTarget (exFullState False RefTypeUse) 5 10"
  "noProfitableSpillCandidate exTarget (exFullState False RefTypeDummyDef) 5 10"
  "IsActualRef (refPositions (exFullState True RefTypeUse) 10)"
  "IsActualRef (refPositions (exFullState False RefTypeUse) 10)"
  "RegOptional (refPositions (exFullState True RefTypeUse) 10)"
  "\<not> RegOptional (refPositions (exFullState False RefTypeUse) 10)"
  "reload (refPositions (exFullState True RefTypeUse) 10)"
  by code_simp+

lemma exFull_outcome:
  "allocationError (allocateUnassigned exTarget (tryAllocateFreeReg 0 exTarget exRcdu)
       (exFullState True RefTypeUse) 5 10) = None"
  "allocationError (allocateUnassigned exTarget (tryAllocateFreeReg 0 exTarget exRcdu)
       (exFullState False RefTypeUse) 5 10) = Some NowayAssert"
  by code_simp+

theorem unallocatable_reference_outcome_witness:
  "IsActualRef (refPositions (exFullState True RefTypeUse) 10)
   \<and> RegOptional (refPositions (exFullState True RefTypeUse) 10)
   \<and> reload (refPositions (exFullState True RefTypeUse) 10)
   \<and> wantsAllocation exTarget (exFullState True RefTypeUse) 5 10
   \<and> tryAllocateFreeReg 0 exTarget exRcdu (exFullState True RefTypeUse) 5 10
       = Some (Inr (REG_NA, exFullState True RefTypeUse))
   \<and> noProfitableSpillCandidate exTarget (exFullState True RefTypeUse) 5 10
   \<and> (\<exists>ls'. allocateUnassigned exTarget (tryAllocateFreeReg 0 exTarget exRcdu)
                (exFullState True RefTypeUse) 5 10 = Some (Inr (REG_NA, ls'))
          \<and> registerAssignment (refPositions ls' 10) = RBM_NONE
          \<and> \<not> reload (refPositions ls' 10)
          \<and> isSpilled (intervals ls' 5)
          \<and> usedFromMemory (refPositions ls' 10))
   \<and> IsActualRef (refPositions (exFullState False RefTypeUse) 10)
   \<and> \<not> RegOptional (refPositions (exFullState False RefTypeUse) 10)
   \<and> wantsAllocation exTarget (exFullState False RefTypeUse) 5 10
   \<and> tryAllocateFreeReg 0 exTarget exRcdu (exFullState False RefTypeUse) 5 10
       = Some (Inr (REG_NA, exFullState False RefTypeUse))
   \<and> noProfitableSpillCandidate exTarget (exFullState False RefTypeUse) 5 10
   \<and> allocateUnassigned exTarget (tryAllocateFreeReg 0 exTarget exRcdu)
        (exFullState False RefTypeUse) 5 10 = Some (Inl NowayAssert)"
proof -
  let ?f = "tryAllocateFreeReg 0 exTarget exRcdu"
  have nn: "allocationError x = None \<Longrightarrow> x \<noteq> Some (Inl NullDereference)"
    "allocationError x = Some NowayAssert \<Longrightarrow> x \<noteq> Some (Inl NullDereference)" for x
    by (auto simp: allocationError_def)
  have f1: "(if wantsAllocation exTarget (exFullState True RefTypeUse) 5 10
             then ?f (exFullState True RefTypeUse) 5 10
             else Some (Inr (REG_NA, exFullState True RefTypeUse)))
            = Some (Inr (REG_NA, exFullState True RefTypeUse))"
    by (simp add: exFull_nofree)
  have f2: "(if wantsAllocation exTarget (exFullState False RefTypeUse) 5 10
             then ?f (exFullState False RefTypeUse) 5 10
             else Some (Inr (REG_NA, exFullState False RefTypeUse)))
            = Some (Inr (REG_NA, exFullState False RefTypeUse))"
    by (simp add: exFull_nofree)
  from unallocatable_reference_outcome[where tryFree = ?f, OF exFull_facts(7) f1 exFull_facts(4)
         nn(1)[OF exFull_outcome(1)]]
       unallocatable_reference_outcome[where tryFree = ?f, OF exFull_facts(8) f2 exFull_facts(5)
         nn(2)[OF exFull_outcome(2)]]
  show ?thesis
    using exFull_facts exFull_nofree by simp
qed

text \<open>
  C5, as stated, fails for a RefPosition that is not an actual reference: the dummy
  definition of a local variable that is live into a block is mandatory (not RegOptional),
  finds no free register and no spill candidate, and this is not fatal: the RefPosition is
  left without register and its Interval is marked spilled and inactive.
\<close>

theorem mandatory_dummy_def_counterexample:
  "refType (refPositions (exFullState False RefTypeDummyDef) 10) = RefTypeDummyDef
   \<and> \<not> RegOptional (refPositions (exFullState False RefTypeDummyDef) 10)
   \<and> wantsAllocation exTarget (exFullState False RefTypeDummyDef) 5 10
   \<and> tryAllocateFreeReg 0 exTarget exRcdu (exFullState False RefTypeDummyDef) 5 10
       = Some (Inr (REG_NA, exFullState False RefTypeDummyDef))
   \<and> noProfitableSpillCandidate exTarget (exFullState False RefTypeDummyDef) 5 10
   \<and> (\<exists>ls'. allocateUnassigned exTarget (tryAllocateFreeReg 0 exTarget exRcdu)
                (exFullState False RefTypeDummyDef) 5 10 = Some (Inr (REG_NA, ls'))
          \<and> registerAssignment (refPositions ls' 10) = RBM_NONE
          \<and> isSpilled (intervals ls' 5) \<and> \<not> isActive (intervals ls' 5))"
proof -
  have a: "refType (refPositions (exFullState False RefTypeDummyDef) 10) = RefTypeDummyDef"
    "\<not> RegOptional (refPositions (exFullState False RefTypeDummyDef) 10)"
    "\<not> IsActualRef (refPositions (exFullState False RefTypeDummyDef) 10)"
    by code_simp+
  let ?S = "exFullState False RefTypeDummyDef"
  let ?S1 = "?S\<lparr> refPositions := (refPositions ?S)
                      (10 := (refPositions ?S 10)\<lparr> registerAssignment := RBM_NONE \<rparr>),
                   intervals := (intervals ?S)(5 := (intervals ?S 5)\<lparr> isActive := False \<rparr>) \<rparr>"
  have up: "\<not> (FEATURE_PARTIAL_SIMD_CALLEE_SAVE exTarget \<and> isUpperVector (intervals ?S1 5))"
    by (simp add: exFull_defs)
  from setIntervalAsSpilled_ok[OF up] obtain ls3 where
    s3: "setIntervalAsSpilled exTarget ?S1 5 = Inr ls3"
    and sp: "isSpilled (intervals ls3 5)"
    and r3: "refPositions ls3 = refPositions ?S1"
    and i3: "\<forall>j. intervals ls3 j = (if j = 5 then (intervals ?S1 5)\<lparr> isSpilled := True \<rparr>
                                      else intervals ?S1 j)"
    by blast
  have run: "allocateUnassigned exTarget (tryAllocateFreeReg 0 exTarget exRcdu) ?S 5 10
               = Some (Inr (REG_NA, ls3))"
    using a(3) s3 by (simp add: allocateUnassigned_def exFull_facts exFull_nofree Let_def)
  have "registerAssignment (refPositions ls3 10) = RBM_NONE" "\<not> isActive (intervals ls3 5)"
    using r3 i3 by simp_all
  with run sp
  have "\<exists>ls'. allocateUnassigned exTarget (tryAllocateFreeReg 0 exTarget exRcdu)
                (exFullState False RefTypeDummyDef) 5 10 = Some (Inr (REG_NA, ls'))
          \<and> registerAssignment (refPositions ls' 10) = RBM_NONE
          \<and> isSpilled (intervals ls' 5) \<and> \<not> isActive (intervals ls' 5)"
    by blast
  with a exFull_facts exFull_nofree show ?thesis
    by simp
qed

subsection \<open>\<^verbatim>\<open>tryAllocateFreeReg\<close>: the register selected\<close>






















subsection \<open>\<^verbatim>\<open>tryAllocateFreeReg\<close>: what the function returns\<close>













subsection \<open>\<^verbatim>\<open>allocateRegisters\<close>: when a released register is freed\<close>


lemma freeAtNewLocation_prev: "prevLocation (fst (freeAtNewLocation q c)) = c"
  unfolding freeAtNewLocation_def by simp

lemma freeAtBlockEnd_prev: "prevLocation (fst (freeAtBlockEnd q rt)) = prevLocation q"
  unfolding freeAtBlockEnd_def by simp

lemma recordLastUse_prev: "prevLocation (recordLastUse q rp b) = prevLocation q"
  unfolding recordLastUse_def Let_def by (simp split: regNumber.splits)

lemma freeStep_prev: "prevLocation (fst (freeStep q s)) = nodeLocation (fst s)"
proof -
  obtain rp b where s: "s = (rp, b)" by (cases s)
  obtain q1 f1 where n: "freeAtNewLocation q (nodeLocation rp) = (q1, f1)"
    by (cases "freeAtNewLocation q (nodeLocation rp)")
  obtain q2 f2 where e: "freeAtBlockEnd q1 (refType rp) = (q2, f2)"
    by (cases "freeAtBlockEnd q1 (refType rp)")
  from freeAtNewLocation_prev[of q "nodeLocation rp"] n have "prevLocation q1 = nodeLocation rp" by simp
  with freeAtBlockEnd_prev[of q1 "refType rp"] e have "prevLocation q2 = nodeLocation rp" by simp
  then show ?thesis
    unfolding s freeStep_def by (simp add: n e Let_def recordLastUse_prev)
qed

lemma recordLastUse_release:
  assumes "bodyAssignedRegister b = REG r" "bodyHasInterval b" "\<not> bodyIsUpperVector b"
    and "nextRefPosition rp = None" "refType rp \<noteq> RefTypeExpUse" "r < 64"
  shows "if delayRegFree rp
         then bit (delayRegsToFree (recordLastUse q rp b)) r \<and> \<not> bit (regsToFree (recordLastUse q rp b)) r
         else bit (regsToFree (recordLastUse q rp b)) r"
  using assms unfolding recordLastUse_def Let_def
  by (simp add: bit_or_iff bit_and_iff bit_not_iff bit_genRegMask)

lemma release_pending:
  assumes rel: "releasesReg u r delayed" and r: "r < 64"
    and T: "T = (if delayed then nodeLocation (fst u) + 1 else nodeLocation (fst u))"
    and nw: "nodeLocation (fst u) \<le> T"
  shows "pendingFree T r (fst (freeStep q u))"
proof -
  obtain rp b where u: "u = (rp, b)" by (cases u)
  obtain q1 f1 where n: "freeAtNewLocation q (nodeLocation rp) = (q1, f1)"
    by (cases "freeAtNewLocation q (nodeLocation rp)")
  obtain q2 f2 where e: "freeAtBlockEnd q1 (refType rp) = (q2, f2)"
    by (cases "freeAtBlockEnd q1 (refType rp)")
  let ?q3 = "q2\<lparr> regsToFree := regsToFree q2 OR bodyRegsToFree b,
                           delayRegsToFree := delayRegsToFree q2 OR bodyDelayRegsToFree b \<rparr>"
  from rel u have c: "refType rp \<noteq> RefTypeBB" "refType rp \<noteq> RefTypeKillGCRefs"
      "refType rp \<noteq> RefTypeFixedReg" "refType rp \<noteq> RefTypeExpUse" "\<not> bodyContinues b"
      "bodyHasInterval b" "bodyAssignedRegister b = REG r" "\<not> bodyIsUpperVector b"
      "nextRefPosition rp = None" "delayRegFree rp = delayed"
    unfolding releasesReg_def by simp_all
  have st: "fst (freeStep q u) = recordLastUse ?q3 rp b"
    unfolding u freeStep_def using c by (simp add: n e Let_def)
  from freeStep_prev[of q u] u have pl: "prevLocation (fst (freeStep q u)) = nodeLocation rp" by simp
  from recordLastUse_release[OF c(7,6,8,9,4) r, of ?q3] c(10) st
  have "if delayed
         then bit (delayRegsToFree (fst (freeStep q u))) r \<and> \<not> bit (regsToFree (fst (freeStep q u))) r
         else bit (regsToFree (fst (freeStep q u))) r" by simp
  with pl T nw u show ?thesis
    unfolding pendingFree_def by (auto split: if_splits)
qed

lemma freeAtNewLocation_same:
  assumes "pendingFree T r q" "prevLocation q \<le> c" "c \<le> T"
  shows "pendingFree T r (fst (freeAtNewLocation q c))
         \<and> \<not> bit (snd (freeAtNewLocation q c)) r
         \<and> prevLocation (fst (freeAtNewLocation q c)) = c
         \<and> handledBlockEnd (fst (freeAtNewLocation q c)) = handledBlockEnd q"
proof (cases "prevLocation q = c")
  case True
  with assms show ?thesis
    unfolding pendingFree_def freeAtNewLocation_def by (auto simp add: RBM_NONE_def split: if_splits)
next
  case False
  with assms(2) have lt: "prevLocation q < c" by simp
  with assms(3) have ne: "prevLocation q \<noteq> T" by auto
  with assms(1) have d: "bit (delayRegsToFree q) r" "\<not> bit (regsToFree q) r" "prevLocation q + 1 = T"
    unfolding pendingFree_def by simp_all
  from d(3) lt assms(3) have c: "c = T"
    by (metis inc_le order_antisym)
  have nz: "(regsToFree q OR delayRegsToFree q) \<noteq> RBM_NONE"
    using d(1) nonzero_bit[of "regsToFree q OR delayRegsToFree q" r] by (simp add: bit_or_iff)
  from c d(3) have ng: "\<not> prevLocation q + 1 < c" by simp
  show ?thesis
    unfolding pendingFree_def freeAtNewLocation_def using nz lt ng d c by simp
qed

lemma freeAtBlockEnd_none:
  assumes "rt \<noteq> RefTypeBB" "rt \<noteq> RefTypeDummyDef"
  shows "freeAtBlockEnd q rt = (q, RBM_NONE)"
  using assms unfolding freeAtBlockEnd_def by simp

lemma recordLastUse_other:
  assumes "bodyAssignedRegister b \<noteq> REG r"
  shows "(bit (regsToFree q) r \<longrightarrow> bit (regsToFree (recordLastUse q rp b)) r)
         \<and> (bit (delayRegsToFree q) r \<longrightarrow> bit (delayRegsToFree (recordLastUse q rp b)) r)
         \<and> (\<not> bit (regsToFree q) r \<longrightarrow> \<not> bit (regsToFree (recordLastUse q rp b)) r)
         \<and> prevLocation (recordLastUse q rp b) = prevLocation q"
  using assms unfolding recordLastUse_def Let_def
  by (auto simp add: bit_or_iff bit_and_iff bit_not_iff bit_genRegMask split: regNumber.splits
        dest: bit_imp_le_length)

lemma freeStep_leaves:
  assumes pf: "pendingFree T r q" and le: "prevLocation q \<le> nodeLocation (fst s)"
    and T: "nodeLocation (fst s) \<le> T" and lv: "leavesReg s r"
  shows "pendingFree T r (fst (freeStep q s)) \<and> \<not> bit (snd (freeStep q s)) r
         \<and> prevLocation (fst (freeStep q s)) = nodeLocation (fst s)"
proof -
  obtain rp b where s: "s = (rp, b)" by (cases s)
  obtain q1 f1 where n: "freeAtNewLocation q (nodeLocation rp) = (q1, f1)" by (cases "freeAtNewLocation q (nodeLocation rp)")
  from freeAtNewLocation_same[OF pf, of "nodeLocation rp"] le T s n
  have q1: "pendingFree T r q1" "\<not> bit f1 r" "prevLocation q1 = nodeLocation rp" by simp_all
  from lv s have rt: "refType rp \<noteq> RefTypeBB" "refType rp \<noteq> RefTypeDummyDef"
    and nb: "\<not> bit (bodyRegsToFree b) r" and na: "bodyAssignedRegister b \<noteq> REG r"
    unfolding leavesReg_def by simp_all
  let ?q3 = "q1\<lparr> regsToFree := regsToFree q1 OR bodyRegsToFree b,
                           delayRegsToFree := delayRegsToFree q1 OR bodyDelayRegsToFree b \<rparr>"
  have q3: "pendingFree T r ?q3"
    using q1(1) nb unfolding pendingFree_def by (simp add: bit_or_iff)
  have q4: "pendingFree T r (recordLastUse ?q3 rp b)"
    using q3 recordLastUse_other[OF na, of ?q3 rp] unfolding pendingFree_def
    by (simp split: if_splits)
  have p4: "prevLocation (recordLastUse ?q3 rp b) = nodeLocation rp"
    using recordLastUse_other[OF na, of ?q3 rp] q1(3) by simp
  show ?thesis
    unfolding s freeStep_def
    using n q1 q3 q4 p4 by (simp add: freeAtBlockEnd_none[OF rt] Let_def RBM_NONE_def)
qed

lemma freeStep_frees:
  assumes pf: "pendingFree T r q" and T: "T < nodeLocation (fst p)"
  shows "bit (snd (freeStep q p)) r"
proof -
  obtain rp b where p: "p = (rp, b)" by (cases p)
  from pf T p have lt: "prevLocation q < nodeLocation rp" unfolding pendingFree_def by auto
  have "bit (snd (freeAtNewLocation q (nodeLocation rp))) r"
  proof (cases "prevLocation q = T")
    case True
    with pf have r: "bit (regsToFree q) r" unfolding pendingFree_def by simp
    then have "(regsToFree q OR delayRegsToFree q) \<noteq> RBM_NONE"
      using nonzero_bit[of "regsToFree q OR delayRegsToFree q" r] by (simp add: bit_or_iff)
    with r lt show ?thesis unfolding freeAtNewLocation_def by (simp add: bit_or_iff)
  next
    case False
    with pf have d: "bit (delayRegsToFree q) r" "prevLocation q + 1 = T"
      unfolding pendingFree_def by simp_all
    then have "(regsToFree q OR delayRegsToFree q) \<noteq> RBM_NONE" "delayRegsToFree q \<noteq> RBM_NONE"
      using nonzero_bit[of "regsToFree q OR delayRegsToFree q" r] nonzero_bit[of "delayRegsToFree q" r]
      by (simp_all add: bit_or_iff)
    with d lt T p show ?thesis unfolding freeAtNewLocation_def by (simp add: bit_or_iff)
  qed
  then show ?thesis
    unfolding p freeStep_def by (auto simp add: Let_def bit_or_iff split: prod.splits)
qed

lemma freeRun_pending:
  assumes "pendingFree T r q"
    and "\<forall>s \<in> set mid. leavesReg s r \<and> nodeLocation (fst s) \<le> T"
    and "sorted (prevLocation q # map (\<lambda>s. nodeLocation (fst s)) mid)"
    and "T < nodeLocation (fst p)"
  shows "map (\<lambda>m. bit m r) (fst (freeRun q (mid @ [p]))) = replicate (length mid) False @ [True]"
  using assms
proof (induction mid arbitrary: q)
  case Nil
  with freeStep_frees[of T r q p] show ?case by (auto split: prod.splits)
next
  case (Cons s mid)
  from Cons.prems have le: "prevLocation q \<le> nodeLocation (fst s)" and T: "nodeLocation (fst s) \<le> T"
    and lv: "leavesReg s r" by simp_all
  from freeStep_leaves[OF Cons.prems(1) le T lv]
  have st: "pendingFree T r (fst (freeStep q s))" "\<not> bit (snd (freeStep q s)) r"
    "prevLocation (fst (freeStep q s)) = nodeLocation (fst s)" by simp_all
  from Cons.prems(3) st(3)
  have srt: "sorted (prevLocation (fst (freeStep q s)) # map (\<lambda>s. nodeLocation (fst s)) mid)" by simp
  from Cons.prems(2) have rest: "\<forall>s \<in> set mid. leavesReg s r \<and> nodeLocation (fst s) \<le> T" by simp
  from Cons.IH[OF st(1) rest srt Cons.prems(4)] st(2)
  show ?case by (auto split: prod.splits)
qed

text \<open>
  The timing of the calls of \<^verbatim>\<open>freeRegisters\<close>, with the allocation of each iteration taken as
  given.  Let a RefPosition at location \<open>L\<close> be the last of its Interval and hold register \<open>r\<close>
  at the end of its iteration, so that \<open>r\<close> is released there.  Let the stream go on, in
  location order, with RefPositions up to location \<open>T\<close>, where \<open>T\<close> is \<open>L\<close> for an ordinary
  last use and \<open>L + 1\<close> for one marked \<^verbatim>\<open>delayRegFree\<close>, none of them a block boundary and
  none of them taking \<open>r\<close> again, and then with a RefPosition beyond \<open>T\<close>.  Then \<open>r\<close> is passed
  to \<^verbatim>\<open>freeRegisters\<close> at none of the RefPositions up to \<open>T\<close> and at the first RefPosition
  beyond \<open>T\<close>: an ordinary last use frees its register once the location has moved past
  \<open>L\<close>, a delayed one exactly one location later, and during location \<open>L + 1\<close> the register
  is still held.
\<close>

lemma last_use_register_free_point:
  assumes "releasesReg u r delayed" and "r < 64"
    and "T = (if delayed then nodeLocation (fst u) + 1 else nodeLocation (fst u))"
    and "nodeLocation (fst u) \<le> T"
    and "\<forall>s \<in> set mid. leavesReg s r \<and> nodeLocation (fst s) \<le> T"
    and "sorted (map (\<lambda>s. nodeLocation (fst s)) (u # mid))"
    and "T < nodeLocation (fst p)"
  shows "map (\<lambda>m. bit m r) (tl (fst (freeRun q (u # mid @ [p])))) = replicate (length mid) False @ [True]"
proof -
  from release_pending[OF assms(1-4)] have pf: "pendingFree T r (fst (freeStep q u))" .
  from assms(6) freeStep_prev[of q u]
  have srt: "sorted (prevLocation (fst (freeStep q u)) # map (\<lambda>s. nodeLocation (fst s)) mid)" by simp
  from freeRun_pending[OF pf assms(5) srt assms(7)]
  show ?thesis by (auto split: prod.splits)
qed

lemma last_use_register_free_point_example:
  "releasesReg exLastUse 2 True \<and> (2::nat) < 64
   \<and> nodeLocation (fst exLastUse) \<le> nodeLocation (fst exLastUse) + 1
   \<and> leavesReg exNextDef 2 \<and> nodeLocation (fst exNextDef) \<le> nodeLocation (fst exLastUse) + 1
   \<and> sorted (map (\<lambda>s. nodeLocation (fst s)) [exLastUse, exNextDef])
   \<and> nodeLocation (fst exLastUse) + 1 < nodeLocation (fst exLaterUse)
   \<and> map (\<lambda>m. bit m (2::nat)) (tl (fst (freeRun initFreeQueues [exLastUse, exNextDef, exLaterUse])))
       = [False, True]"
proof -
  have h1: "releasesReg exLastUse 2 True"
    by (simp add: releasesReg_def exLastUse_def exBody_def exRefPosition_def refAccessors_def)
  have h2: "(2::nat) < 64" by simp
  have h3: "nodeLocation (fst exLastUse) + 1
            = (if True then nodeLocation (fst exLastUse) + 1 else nodeLocation (fst exLastUse))" by simp
  have h4: "nodeLocation (fst exLastUse) \<le> nodeLocation (fst exLastUse) + 1"
    by (simp add: exLastUse_def refAccessors_def)
  have h5: "\<forall>s \<in> set [exNextDef]. leavesReg s 2 \<and> nodeLocation (fst s) \<le> nodeLocation (fst exLastUse) + 1"
    by (simp add: leavesReg_def exNextDef_def exLastUse_def exBody_def exRefPosition_def refAccessors_def)
  have h6: "sorted (map (\<lambda>s. nodeLocation (fst s)) (exLastUse # [exNextDef]))"
    by (simp add: exNextDef_def exLastUse_def refAccessors_def)
  have h7: "nodeLocation (fst exLastUse) + 1 < nodeLocation (fst exLaterUse)"
    by (simp add: exLaterUse_def exLastUse_def refAccessors_def)
  from last_use_register_free_point[OF h1 h2 h3 h4 h5 h6 h7, of initFreeQueues]
  have "map (\<lambda>m. bit m (2::nat)) (tl (fst (freeRun initFreeQueues [exLastUse, exNextDef, exLaterUse])))
       = [False, True]" by simp
  with h1 h4 h5 h6 h7 show ?thesis by simp
qed

subsection \<open>\<^verbatim>\<open>setBlockSequence\<close>: two ready successors of different weight\<close>

text \<open>
  C8.  In the flow graph \<open>exFlowGraph\<close> the entry block 1 has the successors 2 and 3, whose
  only predecessor is block 1; block 3 has the higher weight.  When the successors are put
  on the work list block 1 has been sequenced, so both have all their predecessors
  sequenced, yet the order computed is 1, 2, 3: block 2 comes before the heavier block 3.
  The set handed to \<^verbatim>\<open>addToBlockSequenceWorkList\<close> as the sequenced blocks is \<^verbatim>\<open>readySet\<close>,
  which never holds block 1, so the result is the same whichever way \<^verbatim>\<open>IsSubset\<close> reads
  its arguments.
\<close>

theorem setBlockSequence_ready_successors_by_number:
  "setBlockSequence 3 exFlowGraph (\<lambda>a b. a \<subseteq> b) = Some [1, 2, 3]
   \<and> setBlockSequence 3 exFlowGraph (\<lambda>a b. b \<subseteq> a) = Some [1, 2, 3]
   \<and> getBBWeight exFlowGraph 2 < getBBWeight exFlowGraph 3
   \<and> bbPreds exFlowGraph 2 = [1] \<and> bbPreds exFlowGraph 3 = [1]"
  by code_simp


subsection \<open>\<^verbatim>\<open>resolveEdge\<close>: the moves put every variable in its place\<close>

lemma lowestReg_bit:
  assumes "(m :: regMaskTP) \<noteq> RBM_NONE"
  shows "bit m (lowestReg m) \<and> lowestReg m < 64"
proof -
  from assms obtain r where r: "bit m r" unfolding RBM_NONE_def by (auto simp add: bit_eq_iff)
  then have "r < 64" by (auto dest: bit_imp_le_length)
  with r have "\<exists>x \<in> set [0..<64]. bit m x" by auto
  then obtain x where x: "find (\<lambda>r. bit m r) [0..<64] = Some x"
    by (cases "find (\<lambda>r. bit m r) [0..<64]") (auto simp add: find_None_iff)
  then have "bit m x \<and> x < 64" by (auto simp add: find_Some_iff)
  with x show ?thesis unfolding lowestReg_def genRegNumFromMask_def by simp
qed

lemma set_regsOfMask: "set (regsOfMask m) = {r. bit m r}"
  unfolding regsOfMask_def by (auto dest: bit_imp_le_length)

lemma distinct_regsOfMask: "distinct (regsOfMask m)"
  unfolding regsOfMask_def by simp

lemma regCount_card: "regCount m = card {r. bit m r}"
  unfolding regCount_def using distinct_card[OF distinct_regsOfMask, of m] by (simp add: set_regsOfMask)

lemma finite_bits: "finite {r. bit (m :: regMaskTP) r}"
  using set_regsOfMask[of m] by (metis List.finite_set)

lemma regCount_clear:
  assumes "bit m r"
  shows "regCount (m AND NOT (genRegMask r)) = regCount m - 1"
proof -
  have "{k. bit (m AND NOT (genRegMask r)) k} = {k. bit m k} - {r}"
    by (auto simp add: bit_clear)
  then show ?thesis using assms by (simp add: regCount_card finite_bits)
qed

lemma regCount_clear_le: "regCount (m AND NOT (genRegMask r)) \<le> regCount m"
proof -
  have "{k. bit (m AND NOT (genRegMask r)) k} \<subseteq> {k. bit m k}"
    by (auto simp add: bit_clear)
  then show ?thesis unfolding regCount_card by (rule card_mono[OF finite_bits])
qed

lemma regCount_set:
  assumes "\<not> bit m r" "r < 64"
  shows "regCount (m OR genRegMask r) = regCount m + 1"
proof -
  have "{k. bit (m OR genRegMask r) k} = insert r {k. bit m k}"
    using assms by (auto simp add: bit_or_iff bit_genRegMask)
  then show ?thesis using assms by (simp add: regCount_card finite_bits)
qed

lemma regCount_pos: "bit m r \<Longrightarrow> 0 < regCount m"
  unfolding regCount_card using finite_bits[of m] by (auto simp add: card_gt_0_iff)

lemma regCount_mono:
  assumes "\<forall>r. bit a r \<longrightarrow> bit b r"
  shows "regCount a \<le> regCount b"
  unfolding regCount_card using assms by (intro card_mono[OF finite_bits]) auto

lemma regCount_none: "regCount RBM_NONE = 0"
  unfolding regCount_def regsOfMask_def RBM_NONE_def by simp

lemma exec_append:
  "execResolutions (ms @ [x]) m = execResolution x (execResolutions ms m)"
  unfolding execResolutions_def by simp

lemma exec_append2:
  "execResolutions (ms @ [x, y]) m = execResolution y (execResolution x (execResolutions ms m))"
  unfolding execResolutions_def by simp


lemma resolvable_inj:
  assumes "resolvable env F T live"
  shows "\<And>v w r. v \<in> set live \<Longrightarrow> w \<in> set live \<Longrightarrow> F v = REG r \<Longrightarrow> F w = REG r \<Longrightarrow> v = w"
    and "\<And>v w r. v \<in> set live \<Longrightarrow> w \<in> set live \<Longrightarrow> T v = REG r \<Longrightarrow> T w = REG r \<Longrightarrow> v = w"
    and "\<And>v r. v \<in> set live \<Longrightarrow> F v = REG r \<Longrightarrow> r < 64"
    and "\<And>v r. v \<in> set live \<Longrightarrow> T v = REG r \<Longrightarrow> r < 64"
    and "\<And>v f t. v \<in> set live \<Longrightarrow> F v = REG f \<Longrightarrow> T v = REG t \<Longrightarrow> isFloatReg env f = isFloatReg env t"
    and "tempRegFree F T live (tempRegInt env)" and "tempRegFree F T live (tempRegFlt env)"
    and "\<And>v. v \<in> set live \<Longrightarrow> F v \<noteq> REG_NA \<and> T v \<noteq> REG_NA"
    and "distinct live"
  using assms unfolding resolvable_def by blast+

lemma rr_target_unique:
  assumes "resolvable env F T live" "regToReg F T live v f t" "regToReg F T live w f' t"
  shows "w = v \<and> f' = f"
proof -
  from assms(2,3) have "v \<in> set live" "w \<in> set live" "T v = REG t" "T w = REG t"
    "F v = REG f" "F w = REG f'" unfolding regToReg_def by simp_all
  with resolvable_inj(2)[OF assms(1), of w v t] show ?thesis by simp
qed

lemma rr_source_unique:
  assumes "resolvable env F T live" "regToReg F T live v f t" "regToReg F T live w f t'"
  shows "w = v \<and> t' = t"
proof -
  from assms(2,3) have "v \<in> set live" "w \<in> set live" "T v = REG t" "T w = REG t'"
    "F v = REG f" "F w = REG f" unfolding regToReg_def by simp_all
  with resolvable_inj(1)[OF assms(1), of w v f] show ?thesis by simp
qed

lemma rr_lt64:
  assumes "resolvable env F T live" "regToReg F T live v f t"
  shows "f < 64" "t < 64"
  using resolvable_inj(3,4)[OF assms(1), of v] assms(2) unfolding regToReg_def by simp_all

lemma rr_class:
  assumes "resolvable env F T live" "regToReg F T live v f t"
  shows "useSwapFor env f = useSwapFor env t" "tempRegFor env f = tempRegFor env t"
proof -
  from resolvable_inj(5)[OF assms(1), of v f t] assms(2) have "isFloatReg env f = isFloatReg env t"
    unfolding regToReg_def by simp
  then show "useSwapFor env f = useSwapFor env t" "tempRegFor env f = tempRegFor env t"
    unfolding useSwapFor_def tempRegFor_def by simp_all
qed

lemma temp_not_place:
  assumes "resolvable env F T live" "regToReg F T live v f t"
  shows "tempRegFor env r \<noteq> REG f" "tempRegFor env r \<noteq> REG t" "tempRegFor env r \<noteq> REG_STK"
proof -
  from assms(2) have v: "v \<in> set live" "F v = REG f" "T v = REG t" unfolding regToReg_def by simp_all
  from resolvable_inj(6,7)[OF assms(1)] v
  have "tempRegInt env \<noteq> REG f \<and> tempRegInt env \<noteq> REG t \<and> tempRegInt env \<noteq> REG_STK"
    "tempRegFlt env \<noteq> REG f \<and> tempRegFlt env \<noteq> REG t \<and> tempRegFlt env \<noteq> REG_STK"
    unfolding tempRegFree_def by auto
  then show "tempRegFor env r \<noteq> REG f" "tempRegFor env r \<noteq> REG t" "tempRegFor env r \<noteq> REG_STK"
    unfolding tempRegFor_def by auto
qed


lemma resolveInvD:
  assumes "resolveInv env F T live m0 st"
  shows "invSource F T live st" "invToDo F T live st"
    "invWaiting env F T live (execResolutions (resolutions st) m0) st"
    "invDone F T live (execResolutions (resolutions st) m0) st"
    "invOthers F T live (execResolutions (resolutions st) m0)"
    "invReady F T live st" "invBlocked F T live st" "invSetAside env F T live st"
    "invPhase env F T live st" "invSwapped env F T live st" "invScratch env F T live st"
  using assms unfolding resolveInv_def by (simp_all add: Let_def)

lemma scratch_snoc:
  "scratchHeld F T live (ms @ [mv]) h
     = (case scratchHeld F T live ms h of None \<Rightarrow> None | Some h' \<Rightarrow> scratchStep F T live mv h')"
  by (induction ms arbitrary: h) (simp_all split: option.splits)

lemma edge_regs:
  assumes "regToReg F T live v f t"
  shows "edgeReg F T live f" "edgeReg F T live t"
  using assms unfolding regToReg_def edgeReg_def by auto

lemma temp_not_edge:
  assumes "resolvable env F T live" "tempRegFor env r = REG x"
  shows "\<not> edgeReg F T live x"
proof
  assume "edgeReg F T live x"
  then obtain v where v: "v \<in> set live" "F v = REG x \<or> T v = REG x" unfolding edgeReg_def by blast
  from resolvable_inj(6,7)[OF assms(1)] v(1)
  have a: "F v \<noteq> tempRegInt env \<and> T v \<noteq> tempRegInt env" "F v \<noteq> tempRegFlt env \<and> T v \<noteq> tempRegFlt env"
    unfolding tempRegFree_def by auto
  from assms(2) have "tempRegInt env = REG x \<or> tempRegFlt env = REG x"
    unfolding tempRegFor_def by (auto split: if_splits)
  with a v(2) show False by auto
qed

lemma waitingD:
  assumes "invWaiting env F T live m st" "waiting F T live st v f t"
  shows "sourceIntervals st f = Some v" "positioned m v (location st f)"
    "location st f = REG f
     \<or> (useSwapFor env t \<and> (\<exists>x. location st f = REG x \<and> useSwapFor env x))
     \<or> (\<not> useSwapFor env t \<and> location st f = tempRegFor env t \<and> tempRegFor env t \<noteq> REG_NA)
     \<or> (\<not> useSwapFor env t \<and> location st f = REG_STK \<and> tempRegFor env t = REG_NA)"
  using assms unfolding invWaiting_def by blast+

lemma positioned_reg_unique:
  assumes "positioned m v (REG x)" "positioned m w (REG x)"
  shows "w = v"
  using assms unfolding positioned_def by simp

lemma ready_le_todo:
  assumes "invReady F T live st"
  shows "regCount (targetRegsReady st) \<le> regCount (targetRegsToDo st)"
  using assms unfolding invReady_def by (intro regCount_mono) blast

lemma regCount_or_ge: "regCount a \<le> regCount (a OR b)"
  by (intro regCount_mono) (simp add: bit_or_iff)


lemma other_var:
  assumes "resolvable env F T live" "regToReg F T live X fX t" "regToReg F T live v f t'" "v \<noteq> X"
  shows "f \<noteq> fX" "t' \<noteq> t"
  using rr_source_unique[OF assms(1,2), of v t'] rr_target_unique[OF assms(1,2), of v f] assms(3,4)
  by auto

lemma same_var:
  assumes "regToReg F T live X fX t" "regToReg F T live X f t'"
  shows "f = fX" "t' = t"
  using assms unfolding regToReg_def by simp_all

lemma waiting_same:
  assumes "waiting F T live st X fX t" "waiting F T live st' X f t'"
  shows "f = fX" "t' = t"
  using assms unfolding waiting_def regToReg_def by simp_all

lemma waiting_other:
  assumes "resolvable env F T live" "waiting F T live st X fX t" "waiting F T live st' v f t'" "v \<noteq> X"
  shows "f \<noteq> fX" "t' \<noteq> t"
  using other_var[OF assms(1), of X fX t v f t'] assms(2,3,4) unfolding waiting_def by simp_all

lemma readyStep_inv:
  assumes res: "resolvable env F T live"
    and inv: "resolveInv env F T live m0 st"
    and ne: "targetRegsReady st \<noteq> RBM_NONE"
  shows "\<exists>st'. readyStep st = Inr st' \<and> resolveInv env F T live m0 st' \<and> stepsLeft st' < stepsLeft st"
proof -
  define m where "m = execResolutions (resolutions st) m0"
  note iS = resolveInvD(1)[OF inv] and iT = resolveInvD(2)[OF inv]
    and iW = resolveInvD(3)[OF inv, folded m_def] and iD = resolveInvD(4)[OF inv, folded m_def]
    and iO = resolveInvD(5)[OF inv, folded m_def] and iR = resolveInvD(6)[OF inv]
    and iB = resolveInvD(7)[OF inv] and iA = resolveInvD(8)[OF inv]
    and iP = resolveInvD(9)[OF inv] and iX = resolveInvD(10)[OF inv]
  define t where "t = lowestReg (targetRegsReady st)"
  from lowestReg_bit[OF ne] have rt: "bit (targetRegsReady st) t" and t64: "t < 64"
    unfolding t_def by simp_all
  from iR rt have dt: "bit (targetRegsToDo st) t"
    and free: "\<And>v f t'. waiting F T live st v f t' \<Longrightarrow> location st f \<noteq> REG t"
    unfolding invReady_def by blast+
  from iT dt obtain X fX where X: "regToReg F T live X fX t" unfolding invToDo_def by blast
  from iS X have src: "source st t = REG fX" unfolding invSource_def by blast
  have wX: "waiting F T live st X fX t" unfolding waiting_def using X dt by simp
  note siX = waitingD(1)[OF iW wX] and posX = waitingD(2)[OF iW wX] and modeX = waitingD(3)[OF iW wX]
  note fX64 = rr_lt64(1)[OF res X]
  from X have fXt: "fX \<noteq> t" unfolding regToReg_def by simp
  define p where "p = location st fX"
  define st1 where "st1 = st\<lparr> targetRegsToDo := targetRegsToDo st AND NOT (genRegMask t),
                              targetRegsReady := targetRegsReady st AND NOT (genRegMask t),
                              resolutions := resolutions st @ [InsertMove X p (REG t)],
                              sourceIntervals := (sourceIntervals st)(fX := None),
                              location := (location st)(fX := REG_NA) \<rparr>"
  define new where "new = (p = REG fX \<and> source st fX \<noteq> REG_NA)"
  define st' where "st' = (if new then st1\<lparr> targetRegsReady := targetRegsReady st1 OR genRegMask fX \<rparr> else st1)"
  have run: "readyStep st = Inr st'"
    unfolding readyStep_def Let_def t_def[symmetric] src atReg_def intervalAt_def
    using siX by (simp add: st'_def st1_def new_def p_def)
  have loc': "location st' = (location st)(fX := REG_NA)"
    and src': "source st' = source st"
    and si': "sourceIntervals st' = (sourceIntervals st)(fX := None)"
    and res': "resolutions st' = resolutions st @ [InsertMove X p (REG t)]"
    by (simp_all add: st'_def st1_def)
  have todo': "\<And>r. bit (targetRegsToDo st') r = (bit (targetRegsToDo st) r \<and> r \<noteq> t)"
    by (simp add: st'_def st1_def bit_clear)
  have ready': "\<And>r. bit (targetRegsReady st') r = ((bit (targetRegsReady st) r \<and> r \<noteq> t) \<or> (new \<and> r = fX))"
    using fX64 by (auto simp add: st'_def st1_def bit_clear bit_or_iff bit_genRegMask)
  define m' where "m' = execResolutions (resolutions st') m0"
  have m': "m' = m\<lparr> regVal := (regVal m)(t := Some X) \<rparr>"
  proof (cases p)
    case (REG x)
    with posX have "regVal m x = Some X" unfolding positioned_def p_def by simp
    with REG show ?thesis unfolding m'_def res' exec_append m_def[symmetric] by simp
  next
    case REG_STK
    with posX have "stkVal m X = Some X" unfolding positioned_def p_def by simp
    with REG_STK show ?thesis unfolding m'_def res' exec_append m_def[symmetric] by simp
  next
    case REG_NA
    with posX show ?thesis unfolding positioned_def p_def by simp
  qed
  have notX: "\<And>v f t'. regToReg F T live v f t' \<Longrightarrow> v \<noteq> X \<Longrightarrow> f \<noteq> fX \<and> t' \<noteq> t"
    using rr_source_unique[OF res X] rr_target_unique[OF res X] by blast
  have isX: "\<And>f t'. regToReg F T live X f t' \<Longrightarrow> f = fX \<and> t' = t"
    using X unfolding regToReg_def by simp
  have wait': "\<And>v f t'. waiting F T live st' v f t' = (waiting F T live st v f t' \<and> v \<noteq> X)"
    unfolding waiting_def todo' using notX isX by blast
  have c1: "invSource F T live st'" using iS unfolding invSource_def src' .
  have c2: "invToDo F T live st'" using iT unfolding invToDo_def todo' by blast
  have c3: "invWaiting env F T live m' st'"
    unfolding invWaiting_def
  proof (intro allI impI)
    fix v f t' assume "waiting F T live st' v f t'"
    then have w: "waiting F T live st v f t'" and vX: "v \<noteq> X" unfolding wait' by simp_all
    from w vX notX have ff: "f \<noteq> fX" unfolding waiting_def by blast
    note a = waitingD[OF iW w]
    from free[OF w] a(2) have "positioned m' v (location st f)"
      unfolding positioned_def m' by (cases "location st f") simp_all
    with a ff show "sourceIntervals st' f = Some v \<and> positioned m' v (location st' f)
        \<and> (location st' f = REG f
            \<or> (useSwapFor env t' \<and> (\<exists>x. location st' f = REG x \<and> useSwapFor env x))
            \<or> (\<not> useSwapFor env t' \<and> location st' f = tempRegFor env t' \<and> tempRegFor env t' \<noteq> REG_NA)
            \<or> (\<not> useSwapFor env t' \<and> location st' f = REG_STK \<and> tempRegFor env t' = REG_NA))"
      unfolding loc' si' by simp
  qed
  have c4: "invDone F T live m' st'"
    unfolding invDone_def
  proof (intro allI impI)
    fix v f t' assume a: "regToReg F T live v f t' \<and> \<not> bit (targetRegsToDo st') t'"
    show "regVal m' t' = Some v"
    proof (cases "v = X")
      case True
      with a isX have "t' = t" by blast
      with True show ?thesis unfolding m' by simp
    next
      case False
      with a notX have "t' \<noteq> t" by blast
      with a iD show ?thesis unfolding invDone_def todo' m' by auto
    qed
  qed
  have c5: "invOthers F T live m'"
    unfolding invOthers_def
  proof (intro conjI ballI allI impI)
    fix v r assume v: "v \<in> set live" and a: "F v = REG r \<and> T v = REG r"
    from X have "X \<in> set live" "T X = REG t" "F X = REG fX" unfolding regToReg_def by simp_all
    with resolvable_inj(2)[OF res v, of X r] a fXt have "r \<noteq> t" by auto
    with iO v a show "regVal m' r = Some v" unfolding invOthers_def m' by auto
  next
    fix v assume "v \<in> set live" "F v = REG_STK \<or> T v = REG_STK"
    with iO show "stkVal m' v = Some v" unfolding invOthers_def m' by auto
  qed
  have newtodo: "new \<Longrightarrow> bit (targetRegsToDo st) fX"
  proof (rule ccontr)
    assume n: new and nb: "\<not> bit (targetRegsToDo st) fX"
    from n iS obtain Z fZ where Z: "regToReg F T live Z fZ fX" unfolding new_def invSource_def by blast
    with iD nb have "regVal m fX = Some Z" unfolding invDone_def by blast
    moreover from n posX have "regVal m fX = Some X" unfolding new_def p_def positioned_def by simp
    ultimately have "Z = X" by simp
    with Z isX fXt show False by blast
  qed
  have atfX: "\<And>v f t'. new \<Longrightarrow> waiting F T live st v f t' \<Longrightarrow> location st f = REG fX \<Longrightarrow> v = X"
  proof -
    fix v f t' assume n: new and w: "waiting F T live st v f t'" and l: "location st f = REG fX"
    from waitingD(2)[OF iW w] l have "positioned m v (REG fX)" by simp
    moreover from n posX have "positioned m X (REG fX)" unfolding new_def p_def by simp
    ultimately show "v = X" using positioned_reg_unique by blast
  qed
  have c6: "invReady F T live st'"
    unfolding invReady_def
  proof (intro allI impI)
    fix r assume r: "bit (targetRegsReady st') r"
    show "bit (targetRegsToDo st') r \<and> (\<forall>v f t'. waiting F T live st' v f t' \<longrightarrow> location st' f \<noteq> REG r)"
    proof (cases "bit (targetRegsReady st) r \<and> r \<noteq> t")
      case True
      with iR have "bit (targetRegsToDo st) r"
        and fr: "\<And>v f t'. waiting F T live st v f t' \<Longrightarrow> location st f \<noteq> REG r"
        unfolding invReady_def by blast+
      with True show ?thesis unfolding todo' wait' loc' by auto
    next
      case False
      with r have n: new and rf: "r = fX" unfolding ready' by auto
      from newtodo[OF n] fXt have "bit (targetRegsToDo st') r" unfolding todo' rf by simp
      moreover have "\<forall>v f t'. waiting F T live st' v f t' \<longrightarrow> location st' f \<noteq> REG r"
        unfolding wait' loc' rf using atfX[OF n] by auto
      ultimately show ?thesis by simp
    qed
  qed
  have swapX: "location st fX \<noteq> REG fX \<Longrightarrow> \<not> useSwapFor env t"
    using iX wX rt unfolding invSwapped_def by blast
  have c7: "invBlocked F T live st'"
    unfolding invBlocked_def
  proof (intro allI impI)
    fix r assume a: "bit (targetRegsToDo st') r \<and> \<not> bit (targetRegsReady st') r"
    then have rd: "bit (targetRegsToDo st) r" and rt': "r \<noteq> t" and nr: "\<not> bit (targetRegsReady st) r"
      and nn: "\<not> (new \<and> r = fX)"
      unfolding todo' ready' by auto
    from iB rd nr obtain w f t' where w: "waiting F T live st w f t'" and l: "location st f = REG r"
      unfolding invBlocked_def by blast
    have "w \<noteq> X"
    proof
      assume wx: "w = X"
      with w isX have ff: "f = fX" unfolding waiting_def by blast
      show False
      proof (cases "r = fX")
        case True
        from iT rd obtain Z fZ where "regToReg F T live Z fZ r" unfolding invToDo_def by blast
        with iS have "source st r \<noteq> REG_NA" unfolding invSource_def by force
        with True l ff nn show False unfolding new_def p_def by simp
      next
        case False
        with l ff have ne: "location st fX \<noteq> REG fX" by simp
        from iT rd obtain Z fZ where Z: "regToReg F T live Z fZ r" unfolding invToDo_def by blast
        from modeX ne swapX[OF ne] l ff temp_not_place(2)[OF res Z, of t]
        show False by auto
      qed
    qed
    with w have "waiting F T live st' w f t'" unfolding wait' by simp
    moreover from \<open>w \<noteq> X\<close> w notX have "f \<noteq> fX" unfolding waiting_def by blast
    ultimately show "\<exists>w f t'. waiting F T live st' w f t' \<and> location st' f = REG r"
      using l unfolding loc' by auto
  qed
  have aside': "\<And>v. setAside env F T live st' v \<Longrightarrow> setAside env F T live st v \<and> v \<noteq> X"
  proof -
    fix v assume "setAside env F T live st' v"
    then obtain f t' where w: "waiting F T live st' v f t'" and l: "location st' f \<noteq> REG f"
      and s: "\<not> useSwapFor env t'" unfolding setAside_def by blast
    from w have w0: "waiting F T live st v f t'" and vX: "v \<noteq> X" unfolding wait' by simp_all
    from w0 vX notX have "f \<noteq> fX" unfolding waiting_def by blast
    with l have "location st f \<noteq> REG f" unfolding loc' by simp
    with w0 s vX show "setAside env F T live st v \<and> v \<noteq> X" unfolding setAside_def by blast
  qed
  have c8: "invSetAside env F T live st'"
    unfolding invSetAside_def
  proof (intro allI impI conjI)
    fix v assume sv: "setAside env F T live st' v"
    from aside'[OF sv] have s0: "setAside env F T live st v" and vX: "v \<noteq> X" by simp_all
    from iA s0 have uniq: "\<And>w. setAside env F T live st w \<Longrightarrow> w = v" unfolding invSetAside_def by blast
    have orig: "location st fX = REG fX"
    proof (rule ccontr)
      assume ne: "location st fX \<noteq> REG fX"
      with swapX wX have "setAside env F T live st X" unfolding setAside_def by blast
      with uniq vX show False by blast
    qed
    from s0 obtain f t' where w: "waiting F T live st v f t'" and l: "location st f \<noteq> REG f"
      unfolding setAside_def by blast
    with iP have "\<forall>v f t x. waiting F T live st v f t \<and> location st f = REG x \<and> (x = f \<or> useSwapFor env t)
            \<longrightarrow> bit (targetRegsToDo st) x" unfolding invPhase_def by blast
    with wX orig have "bit (targetRegsToDo st) fX" by blast
    with iT obtain Z fZ where "regToReg F T live Z fZ fX" unfolding invToDo_def by blast
    with iS have "source st fX \<noteq> REG_NA" unfolding invSource_def by force
    with orig have new unfolding new_def p_def by simp
    then have "bit (targetRegsReady st') fX" unfolding ready' by simp
    then show "targetRegsReady st' \<noteq> RBM_NONE" by (rule nonzero_bit)
  next
    fix v w assume "setAside env F T live st' v" "setAside env F T live st' w"
    with aside' iA show "w = v" unfolding invSetAside_def by blast
  qed
  have c9: "invPhase env F T live st'"
  proof (cases "\<forall>v f t. waiting F T live st v f t \<longrightarrow> location st f = REG f")
    case True
    have "\<forall>v f t. waiting F T live st' v f t \<longrightarrow> location st' f = REG f"
    proof (intro allI impI)
      fix v f t' assume "waiting F T live st' v f t'"
      then have w0: "waiting F T live st v f t'" and vX: "v \<noteq> X" unfolding wait' by simp_all
      from w0 vX notX have "f \<noteq> fX" unfolding waiting_def by blast
      with True w0 show "location st' f = REG f" unfolding loc' by auto
    qed
    then show ?thesis unfolding invPhase_def by blast
  next
    case False
    with iP have ph: "\<And>v f t x. waiting F T live st v f t \<Longrightarrow> location st f = REG x \<Longrightarrow> (x = f \<or> useSwapFor env t)
            \<Longrightarrow> bit (targetRegsToDo st) x" unfolding invPhase_def by blast
    have "\<forall>v f t' x. waiting F T live st' v f t' \<and> location st' f = REG x \<and> (x = f \<or> useSwapFor env t')
            \<longrightarrow> bit (targetRegsToDo st') x"
    proof (intro allI impI)
      fix v f t' x assume a: "waiting F T live st' v f t' \<and> location st' f = REG x \<and> (x = f \<or> useSwapFor env t')"
      then have w0: "waiting F T live st v f t'" and vX: "v \<noteq> X" unfolding wait' by simp_all
      from w0 vX notX have ff: "f \<noteq> fX" unfolding waiting_def by blast
      with a have l: "location st f = REG x" unfolding loc' by simp
      from ph[OF w0 l] a have "bit (targetRegsToDo st) x" by blast
      moreover from free[OF w0] l have "x \<noteq> t" by auto
      ultimately show "bit (targetRegsToDo st') x" unfolding todo' by simp
    qed
    then show ?thesis unfolding invPhase_def by blast
  qed
  have c10: "invSwapped env F T live st'"
    unfolding invSwapped_def
  proof (intro allI impI)
    fix v f t' r
    assume a: "waiting F T live st' v f t' \<and> location st' f \<noteq> REG f \<and> useSwapFor env t' \<and> bit (targetRegsReady st') r"
    then have w0: "waiting F T live st v f t'" and vX: "v \<noteq> X" unfolding wait' by simp_all
    from w0 vX notX have ff: "f \<noteq> fX" unfolding waiting_def by blast
    with a have l: "location st f \<noteq> REG f" unfolding loc' by simp
    from iX w0 l a rt have nt: "\<not> useSwapFor env t" unfolding invSwapped_def by blast
    show "\<not> useSwapFor env r"
    proof (cases "bit (targetRegsReady st) r")
      case True
      with iX w0 l a show ?thesis unfolding invSwapped_def by blast
    next
      case False
      with a have "r = fX" unfolding ready' by auto
      with nt rr_class(1)[OF res X] show ?thesis by simp
    qed
  qed
  have c11: "invScratch env F T live st'"
  proof (cases "setAside env F T live st X")
    case True
    with iA have uniq: "\<And>w. setAside env F T live st w \<Longrightarrow> w = X" unfolding invSetAside_def by blast
    from True obtain f0 t0 where s0: "waiting F T live st X f0 t0" "location st f0 \<noteq> REG f0" "\<not> useSwapFor env t0"
      unfolding setAside_def by blast
    with waiting_same[OF wX s0(1)] have ne: "location st fX \<noteq> REG fX" and ns: "\<not> useSwapFor env t" by simp_all
    from modeX ne ns have pp: "p = REG_STK \<or> (p = tempRegFor env t \<and> tempRegFor env t \<noteq> REG_NA)"
      unfolding p_def by auto
    have fs: "fromScratch F T live (InsertMove X p (REG t))"
    proof (cases "p = REG_STK")
      case True
      with X show ?thesis unfolding fromScratch_def regToReg_def by simp
    next
      case False
      with pp temp_not_place(3)[OF res X, of t] obtain r where r: "p = REG r" "tempRegFor env t = REG r"
        by (cases p) auto
      with temp_not_edge[OF res r(2)] show ?thesis unfolding fromScratch_def by simp
    qed
    have ts: "\<not> toScratch F T live (InsertMove X p (REG t))"
      using edge_regs(2)[OF X] unfolding toScratch_def by simp
    have none': "\<not> (\<exists>v. setAside env F T live st' v)" using aside' uniq by blast
    from resolveInvD(11)[OF inv] True have "scratchHeld F T live (resolutions st) 0 = Some 1"
      unfolding invScratch_def by auto
    with fs ts none' show ?thesis unfolding invScratch_def res' scratch_snoc scratchStep_def by simp
  next
    case False
    have "location st fX = REG fX"
    proof (rule ccontr)
      assume ne: "location st fX \<noteq> REG fX"
      with swapX wX have "setAside env F T live st X" unfolding setAside_def by blast
      with False show False by simp
    qed
    then have pf: "p = REG fX" by (simp add: p_def)
    have ns: "\<not> toScratch F T live (InsertMove X p (REG t))" "\<not> fromScratch F T live (InsertMove X p (REG t))"
      using edge_regs[OF X] pf unfolding toScratch_def fromScratch_def by simp_all
    have eq: "(\<exists>v. setAside env F T live st' v) = (\<exists>v. setAside env F T live st v)"
    proof
      assume "\<exists>v. setAside env F T live st' v"
      with aside' show "\<exists>v. setAside env F T live st v" by blast
    next
      assume "\<exists>v. setAside env F T live st v"
      then obtain v f t' where w: "waiting F T live st v f t'" and l: "location st f \<noteq> REG f"
        and s: "\<not> useSwapFor env t'" and sv: "setAside env F T live st v" unfolding setAside_def by blast
      from sv False have vX: "v \<noteq> X" by auto
      from waiting_other(1)[OF res wX w vX] have "f \<noteq> fX" .
      with w vX l s have "setAside env F T live st' v" unfolding setAside_def wait' loc' by auto
      then show "\<exists>v. setAside env F T live st' v" by blast
    qed
    from resolveInvD(11)[OF inv] ns show ?thesis
      unfolding invScratch_def res' scratch_snoc scratchStep_def eq by simp
  qed
  have inv': "resolveInv env F T live m0 st'"
    unfolding resolveInv_def Let_def m'_def[symmetric]
    using c1 c2 c3 c4 c5 c6 c7 c8 c9 c10 c11 by simp
  have k1: "regCount (targetRegsToDo st') = regCount (targetRegsToDo st) - 1"
    using regCount_clear[OF dt] by (simp add: st'_def st1_def)
  have k2: "regCount (targetRegsReady st) - 1 \<le> regCount (targetRegsReady st')"
    using regCount_clear[OF rt] regCount_or_ge[of "targetRegsReady st AND NOT (genRegMask t)" "genRegMask fX"]
    by (simp add: st'_def st1_def)
  from ready_le_todo[OF iR] regCount_pos[OF dt] regCount_pos[OF rt] k1 k2
  have "stepsLeft st' < stepsLeft st" unfolding stepsLeft_def by arith
  with run inv' show ?thesis by blast
qed


lemma readyLoop_inv:
  assumes res: "resolvable env F T live"
  shows "resolveInv env F T live m0 st \<Longrightarrow> stepsLeft st \<le> n \<Longrightarrow>
         \<exists>st'. readyLoop n st = Some (Inr st') \<and> resolveInv env F T live m0 st'
               \<and> targetRegsReady st' = RBM_NONE \<and> stepsLeft st' \<le> stepsLeft st"
proof (induction n arbitrary: st)
  case 0
  have "targetRegsReady st = RBM_NONE"
  proof (rule ccontr)
    assume "targetRegsReady st \<noteq> RBM_NONE"
    from readyStep_inv[OF res 0(1) this] 0(2) show False by auto
  qed
  with 0 show ?case by simp
next
  case (Suc n)
  show ?case
  proof (cases "targetRegsReady st = RBM_NONE")
    case True
    with Suc.prems show ?thesis by simp
  next
    case False
    from readyStep_inv[OF res Suc.prems(1) False] obtain st1 where
      s: "readyStep st = Inr st1" "resolveInv env F T live m0 st1" "stepsLeft st1 < stepsLeft st" by blast
    with Suc.prems(2) have "stepsLeft st1 \<le> n" by simp
    from Suc.IH[OF s(2) this] obtain st' where
      "readyLoop n st1 = Some (Inr st')" "resolveInv env F T live m0 st'"
      "targetRegsReady st' = RBM_NONE" "stepsLeft st' \<le> stepsLeft st1" by blast
    with s False show ?thesis by auto
  qed
qed

lemma or_elim_left: "P \<or> Q \<Longrightarrow> \<not> P \<Longrightarrow> Q"
  by simp

lemma not_ready:
  assumes "targetRegsReady st = RBM_NONE"
  shows "\<not> bit (targetRegsReady st) r"
  using assms unfolding RBM_NONE_def by simp

lemma none_setAside:
  assumes "resolveInv env F T live m0 st" "targetRegsReady st = RBM_NONE"
  shows "\<not> setAside env F T live st v"
  using resolveInvD(8)[OF assms(1)] assms(2) unfolding invSetAside_def by blast

text \<open>When no target is ready, the registers of the waiting values are the targets to do.\<close>

lemma phase_cyclic:
  assumes res: "resolvable env F T live"
    and inv: "resolveInv env F T live m0 st"
    and nr: "targetRegsReady st = RBM_NONE"
    and w: "waiting F T live st v f t" and l: "location st f = REG x" and o: "x = f \<or> useSwapFor env t"
  shows "bit (targetRegsToDo st) x"
proof (cases "\<forall>v f t. waiting F T live st v f t \<longrightarrow> location st f = REG f")
  case False
  from or_elim_left[OF resolveInvD(9)[OF inv, unfolded invPhase_def] False]
  have "\<forall>v f t x. waiting F T live st v f t \<and> location st f = REG x \<and> (x = f \<or> useSwapFor env t)
            \<longrightarrow> bit (targetRegsToDo st) x" .
  then have "waiting F T live st v f t \<and> location st f = REG x \<and> (x = f \<or> useSwapFor env t)
            \<longrightarrow> bit (targetRegsToDo st) x" by (elim allE)
  with w l o show ?thesis by simp
next
  case True
  then have "waiting F T live st v f t \<longrightarrow> location st f = REG f" by (elim allE)
  with w l have xf: "x = f" by simp
  define A where "A = {r. bit (targetRegsToDo st) r}"
  define g where "g r = (SOME t'. \<exists>u. waiting F T live st u r t')" for r
  have occ: "\<And>r. r \<in> A \<Longrightarrow> \<exists>u. waiting F T live st u r (g r)"
  proof -
    fix r assume "r \<in> A"
    with resolveInvD(7)[OF inv] not_ready[OF nr] obtain u fu tu where
      u: "waiting F T live st u fu tu" "location st fu = REG r"
      unfolding invBlocked_def A_def by blast
    from True have "waiting F T live st u fu tu \<longrightarrow> location st fu = REG fu" by (elim allE)
    with u have "fu = r" by simp
    with u have "\<exists>t' u. waiting F T live st u r t'" by blast
    then show "\<exists>u. waiting F T live st u r (g r)" unfolding g_def by (rule someI_ex)
  qed
  have fin: "finite A" unfolding A_def by (rule finite_bits)
  have sub: "g ` A \<subseteq> A"
  proof
    fix y assume "y \<in> g ` A"
    then obtain r where r: "r \<in> A" "y = g r" by blast
    from occ[OF r(1)] r(2) show "y \<in> A" unfolding waiting_def A_def by auto
  qed
  have inj: "inj_on g A"
  proof (rule inj_onI)
    fix a b assume a: "a \<in> A" and b: "b \<in> A" and e: "g a = g b"
    from occ[OF a] obtain u where u: "regToReg F T live u a (g a)" unfolding waiting_def by blast
    from occ[OF b] e obtain u' where u': "regToReg F T live u' b (g a)" unfolding waiting_def by auto
    from rr_target_unique[OF res u u'] show "a = b" by simp
  qed
  from endo_inj_surj[OF fin sub inj] have surj: "g ` A = A" .
  from w have "t \<in> A" unfolding waiting_def A_def by simp
  with surj have "t \<in> g ` A" by simp
  then obtain r where r: "r \<in> A" "g r = t" by (auto simp add: image_iff)
  from occ[OF r(1)] r(2) obtain u where u: "regToReg F T live u r t" unfolding waiting_def by auto
  from w have "regToReg F T live v f t" unfolding waiting_def by simp
  from rr_target_unique[OF res this u] r(1) xf show ?thesis unfolding A_def by simp
qed

text \<open>The value that sits in a target that is not ready.\<close>

lemma occupant:
  assumes res: "resolvable env F T live"
    and inv: "resolveInv env F T live m0 st"
    and nr: "targetRegsReady st = RBM_NONE"
    and dt: "bit (targetRegsToDo st) t"
  obtains Y fY tY where "waiting F T live st Y fY tY" "location st fY = REG t"
    "fY = t \<or> (useSwapFor env tY \<and> useSwapFor env t)"
proof -
  from resolveInvD(7)[OF inv] dt not_ready[OF nr] obtain Y fY tY where
    Y: "waiting F T live st Y fY tY" "location st fY = REG t"
    unfolding invBlocked_def by blast
  from resolveInvD(2)[OF inv] dt obtain X fX where X: "regToReg F T live X fX t"
    unfolding invToDo_def by blast
  from waitingD(3)[OF resolveInvD(3)[OF inv] Y(1)] Y(2) temp_not_place(2)[OF res X, of tY]
  have "fY = t \<or> (useSwapFor env tY \<and> useSwapFor env t)" by auto
  with Y that show ?thesis by blast
qed

lemma findOtherTarget_finds:
  assumes "\<And>r. r \<in> set rs \<Longrightarrow> \<exists>f. source st r = REG f"
    and "tY \<in> set rs" and "source st tY = REG fY" and "location st fY = REG t"
    and "\<And>r f. r \<in> set rs \<Longrightarrow> source st r = REG f \<Longrightarrow> location st f = REG t \<Longrightarrow> r = tY"
  shows "findOtherTarget st t rs = Inr (REG tY)"
  using assms
proof (induction rs)
  case Nil
  then show ?case by simp
next
  case (Cons r rs)
  from Cons.prems(1)[of r] obtain f where f: "source st r = REG f" by auto
  show ?case
  proof (cases "location st f = REG t")
    case True
    with Cons.prems(5)[of r f] f have "r = tY" by simp
    with True f show ?thesis by (simp add: atReg_def)
  next
    case False
    with f Cons.prems(3,4) have "r \<noteq> tY" by auto
    with Cons.prems(2) have "tY \<in> set rs" by simp
    from Cons.IH[OF _ this Cons.prems(3,4)] Cons.prems(1,5)
    have "findOtherTarget st t rs = Inr (REG tY)" by simp
    with False f show ?thesis by (simp add: atReg_def)
  qed
qed


lemma waiting_clear:
  assumes res: "resolvable env F T live" and X: "regToReg F T live X fX t"
    and td: "\<And>r. bit (targetRegsToDo st') r = (bit (targetRegsToDo st) r \<and> r \<noteq> t)"
  shows "waiting F T live st' v f t' = (waiting F T live st v f t' \<and> v \<noteq> X)"
proof (cases "v = X")
  case True
  show ?thesis
  proof (cases "regToReg F T live v f t'")
    case r: True
    with True same_var(2)[OF X, of f t'] show ?thesis unfolding waiting_def td by auto
  next
    case False
    then show ?thesis unfolding waiting_def by simp
  qed
next
  case False
  show ?thesis
  proof (cases "regToReg F T live v f t'")
    case r: True
    from other_var(2)[OF res X r False] False show ?thesis unfolding waiting_def td by simp
  next
    case False
    then show ?thesis unfolding waiting_def by simp
  qed
qed

lemma occ_unique:
  assumes "invWaiting env F T live m st" "waiting F T live st v f t" "waiting F T live st w f' t'"
    and "location st f = REG x" "location st f' = REG x"
  shows "w = v"
  using waitingD(2)[OF assms(1,2)] waitingD(2)[OF assms(1,3)] assms(4,5) positioned_reg_unique
  by auto

lemma cycle_done_inv:
  assumes res: "resolvable env F T live"
    and inv: "resolveInv env F T live m0 st"
    and nr: "targetRegsReady st = RBM_NONE"
    and wX: "waiting F T live st X fX t"
    and at: "location st fX = REG t"
  defines "st' \<equiv> st\<lparr> targetRegsToDo := targetRegsToDo st AND NOT (genRegMask t) \<rparr>"
  shows "resolveInv env F T live m0 st' \<and> stepsLeft st' < stepsLeft st"
proof -
  define m where "m = execResolutions (resolutions st) m0"
  note iS = resolveInvD(1)[OF inv] and iT = resolveInvD(2)[OF inv]
    and iW = resolveInvD(3)[OF inv, folded m_def] and iD = resolveInvD(4)[OF inv, folded m_def]
    and iO = resolveInvD(5)[OF inv, folded m_def] and iB = resolveInvD(7)[OF inv]
  from wX have X: "regToReg F T live X fX t" and dt: "bit (targetRegsToDo st) t"
    unfolding waiting_def by simp_all
  have todo': "\<And>r. bit (targetRegsToDo st') r = (bit (targetRegsToDo st) r \<and> r \<noteq> t)"
    by (simp add: st'_def bit_clear)
  note wait' = waiting_clear[OF res X todo']
  have same: "location st' = location st" "source st' = source st" "sourceIntervals st' = sourceIntervals st"
    "resolutions st' = resolutions st" "targetRegsReady st' = targetRegsReady st"
    by (simp_all add: st'_def)
  have nr': "\<And>r. \<not> bit (targetRegsReady st') r" unfolding same using not_ready[OF nr] .
  have c1: "invSource F T live st'" using iS unfolding invSource_def same .
  have c2: "invToDo F T live st'" using iT unfolding invToDo_def todo' by blast
  have c3: "invWaiting env F T live m st'"
    unfolding invWaiting_def same wait'
  proof (intro allI impI)
    fix v f t' assume "waiting F T live st v f t' \<and> v \<noteq> X"
    then have w: "waiting F T live st v f t'" by simp
    from waitingD[OF iW w]
    show "sourceIntervals st f = Some v \<and> positioned m v (location st f)
        \<and> (location st f = REG f
            \<or> (useSwapFor env t' \<and> (\<exists>x. location st f = REG x \<and> useSwapFor env x))
            \<or> (\<not> useSwapFor env t' \<and> location st f = tempRegFor env t' \<and> tempRegFor env t' \<noteq> REG_NA)
            \<or> (\<not> useSwapFor env t' \<and> location st f = REG_STK \<and> tempRegFor env t' = REG_NA))"
      by simp
  qed
  have c4: "invDone F T live m st'"
    unfolding invDone_def
  proof (intro allI impI)
    fix v f t' assume a: "regToReg F T live v f t' \<and> \<not> bit (targetRegsToDo st') t'"
    show "regVal m t' = Some v"
    proof (cases "v = X")
      case True
      with a same_var(2)[OF X, of f t'] have "t' = t" by simp
      with True waitingD(2)[OF iW wX] at show ?thesis unfolding positioned_def by simp
    next
      case False
      with a other_var(2)[OF res X, of v f t'] have "\<not> bit (targetRegsToDo st) t'" unfolding todo' by simp
      with a iD show ?thesis unfolding invDone_def by blast
    qed
  qed
  have c6: "invReady F T live st'" unfolding invReady_def using nr' by simp
  have c7: "invBlocked F T live st'"
    unfolding invBlocked_def
  proof (intro allI impI)
    fix r assume a: "bit (targetRegsToDo st') r \<and> \<not> bit (targetRegsReady st') r"
    with iB not_ready[OF nr] obtain w f t' where w: "waiting F T live st w f t'" "location st f = REG r"
      unfolding invBlocked_def todo' by blast
    have "w \<noteq> X"
    proof
      assume "w = X"
      with w(1) have "waiting F T live st X f t'" by simp
      from waiting_same(1)[OF wX this] w(2) at a show False unfolding todo' by simp
    qed
    with w show "\<exists>w f t'. waiting F T live st' w f t' \<and> location st' f = REG r"
      unfolding wait' same by blast
  qed
  have aside': "\<And>v. \<not> setAside env F T live st' v"
  proof
    fix v assume "setAside env F T live st' v"
    then have "setAside env F T live st v" unfolding setAside_def wait' same by blast
    with none_setAside[OF inv nr] show False by simp
  qed
  have c8: "invSetAside env F T live st'" unfolding invSetAside_def using aside' by simp
  have c9: "invPhase env F T live st'"
  proof -
    have "\<forall>v f t' x. waiting F T live st' v f t' \<and> location st' f = REG x \<and> (x = f \<or> useSwapFor env t')
            \<longrightarrow> bit (targetRegsToDo st') x"
    proof (intro allI impI)
      fix v f t' x
      assume a: "waiting F T live st' v f t' \<and> location st' f = REG x \<and> (x = f \<or> useSwapFor env t')"
      then have w: "waiting F T live st v f t'" and vX: "v \<noteq> X" and l: "location st f = REG x"
        and o: "x = f \<or> useSwapFor env t'" unfolding wait' same by simp_all
      from phase_cyclic[OF res inv nr w l o] have "bit (targetRegsToDo st) x" .
      moreover have "x \<noteq> t"
      proof
        assume "x = t"
        with occ_unique[OF iW wX w at] l vX show False by simp
      qed
      ultimately show "bit (targetRegsToDo st') x" unfolding todo' by simp
    qed
    then show ?thesis unfolding invPhase_def by (rule disjI2)
  qed
  have c10: "invSwapped env F T live st'" unfolding invSwapped_def using nr' by simp
  have c11: "invScratch env F T live st'"
    using resolveInvD(11)[OF inv] none_setAside[OF inv nr] aside'
    unfolding invScratch_def same by simp
  have inv': "resolveInv env F T live m0 st'"
    unfolding resolveInv_def Let_def same m_def[symmetric]
    using c1 c2 c3 c4 iO c6 c7 c8 c9 c10 c11 by simp
  have "regCount (targetRegsToDo st') = regCount (targetRegsToDo st) - 1"
    using regCount_clear[OF dt] by (simp add: st'_def)
  moreover have "regCount (targetRegsReady st') = 0" unfolding same nr by (rule regCount_none)
  moreover have "regCount (targetRegsReady st) = 0" unfolding nr by (rule regCount_none)
  ultimately have "stepsLeft st' < stepsLeft st" using regCount_pos[OF dt] unfolding stepsLeft_def by simp
  with inv' show ?thesis by simp
qed


lemma temp_not_live:
  assumes "resolvable env F T live" "v \<in> set live"
  shows "F v \<noteq> tempRegFor env r" "T v \<noteq> tempRegFor env r"
proof -
  from resolvable_inj(6,7)[OF assms(1)] assms(2)
  have "F v \<noteq> tempRegInt env \<and> T v \<noteq> tempRegInt env" "F v \<noteq> tempRegFlt env \<and> T v \<noteq> tempRegFlt env"
    unfolding tempRegFree_def by auto
  with resolvable_inj(8)[OF assms(1,2)]
  show "F v \<noteq> tempRegFor env r" "T v \<noteq> tempRegFor env r" unfolding tempRegFor_def by auto
qed

lemma waiting_source_unique:
  assumes "resolvable env F T live" "waiting F T live st v f t" "waiting F T live st w f t'"
  shows "w = v" "t' = t"
  using rr_source_unique[OF assms(1), of v f t w t'] assms(2,3) unfolding waiting_def by simp_all

text \<open>When no target is ready, no waiting value is in a register that is not a target.\<close>

lemma waiting_in_target:
  assumes res: "resolvable env F T live"
    and inv: "resolveInv env F T live m0 st"
    and nr: "targetRegsReady st = RBM_NONE"
    and w: "waiting F T live st v f t" and l: "location st f = REG x"
  shows "bit (targetRegsToDo st) x"
proof -
  from none_setAside[OF inv nr, of v] w have "location st f = REG f \<or> useSwapFor env t"
    unfolding setAside_def by blast
  with l have "x = f \<or> useSwapFor env t" by auto
  from phase_cyclic[OF res inv nr w l this] show ?thesis .
qed

lemma cycle_temp_inv:
  assumes res: "resolvable env F T live"
    and inv: "resolveInv env F T live m0 st"
    and nr: "targetRegsReady st = RBM_NONE"
    and wX: "waiting F T live st X fX t"
    and ns: "\<not> useSwapFor env t"
    and tmp: "tempRegFor env t = REG x"
  shows "\<exists>st'. breakByTemp st t (REG x) = Inr st' \<and> resolveInv env F T live m0 st'
               \<and> stepsLeft st' < stepsLeft st"
proof -
  define m where "m = execResolutions (resolutions st) m0"
  note iS = resolveInvD(1)[OF inv] and iT = resolveInvD(2)[OF inv]
    and iW = resolveInvD(3)[OF inv, folded m_def] and iD = resolveInvD(4)[OF inv, folded m_def]
    and iO = resolveInvD(5)[OF inv, folded m_def] and iB = resolveInvD(7)[OF inv]
  from wX have X: "regToReg F T live X fX t" and dt: "bit (targetRegsToDo st) t"
    unfolding waiting_def by simp_all
  note t64 = rr_lt64(2)[OF res X]
  from occupant[OF res inv nr dt] ns obtain Y tY where
    wY: "waiting F T live st Y t tY" and lY: "location st t = REG t" by metis
  from wY have Y: "regToReg F T live Y t tY" unfolding waiting_def by simp
  note siY = waitingD(1)[OF iW wY]
  from waitingD(2)[OF iW wY] lY have rY: "regVal m t = Some Y" unfolding positioned_def by simp
  define st' where "st' = st\<lparr> resolutions := resolutions st @ [InsertMove Y (REG t) (REG x)],
                              location := (location st)(t := REG x),
                              targetRegsReady := targetRegsReady st OR genRegMask t \<rparr>"
  have run: "breakByTemp st t (REG x) = Inr st'"
    unfolding breakByTemp_def st'_def using siY by simp
  have same: "source st' = source st" "sourceIntervals st' = sourceIntervals st"
    "targetRegsToDo st' = targetRegsToDo st"
    and loc': "location st' = (location st)(t := REG x)"
    and res': "resolutions st' = resolutions st @ [InsertMove Y (REG t) (REG x)]"
    by (simp_all add: st'_def)
  have ready': "\<And>r. bit (targetRegsReady st') r = (r = t)"
    using t64 not_ready[OF nr] by (auto simp add: st'_def bit_or_iff bit_genRegMask)
  have wait': "\<And>v f t'. waiting F T live st' v f t' = waiting F T live st v f t'"
    unfolding waiting_def same ..
  define m' where "m' = execResolutions (resolutions st') m0"
  have m': "m' = m\<lparr> regVal := (regVal m)(x := Some Y) \<rparr>"
    unfolding m'_def res' exec_append m_def[symmetric] using rY by simp
  have xplace: "\<And>v f t'. regToReg F T live v f t' \<Longrightarrow> x \<noteq> f \<and> x \<noteq> t'"
    using temp_not_place(1,2)[OF res, of _ _ _ t] tmp by auto
  have notemp: "\<And>v f t'. waiting F T live st v f t' \<Longrightarrow> location st f \<noteq> REG x"
  proof
    fix v f t' assume w: "waiting F T live st v f t'" and l: "location st f = REG x"
    from waiting_in_target[OF res inv nr w l] iT obtain Z fZ where "regToReg F T live Z fZ x"
      unfolding invToDo_def by blast
    with xplace show False by blast
  qed
  have c1: "invSource F T live st'" using iS unfolding invSource_def same .
  have c2: "invToDo F T live st'" using iT unfolding invToDo_def same .
  have c3: "invWaiting env F T live m' st'"
    unfolding invWaiting_def wait' same
  proof (intro allI impI)
    fix v f t' assume w: "waiting F T live st v f t'"
    note a = waitingD[OF iW w]
    show "sourceIntervals st f = Some v \<and> positioned m' v (location st' f)
        \<and> (location st' f = REG f
            \<or> (useSwapFor env t' \<and> (\<exists>x. location st' f = REG x \<and> useSwapFor env x))
            \<or> (\<not> useSwapFor env t' \<and> location st' f = tempRegFor env t' \<and> tempRegFor env t' \<noteq> REG_NA)
            \<or> (\<not> useSwapFor env t' \<and> location st' f = REG_STK \<and> tempRegFor env t' = REG_NA))"
    proof (cases "f = t")
      case True
      with waiting_source_unique[OF res wY, of v t'] w have vy: "v = Y" "t' = tY" by simp_all
      from rr_class[OF res Y] ns tmp have "\<not> useSwapFor env tY" "tempRegFor env tY = REG x" by simp_all
      with vy True a(1) show ?thesis unfolding loc' m' positioned_def by simp
    next
      case False
      from notemp[OF w] a(2) have "positioned m' v (location st f)"
        unfolding positioned_def m' by (cases "location st f") simp_all
      with False a show ?thesis unfolding loc' by simp
    qed
  qed
  have c4: "invDone F T live m' st'"
    unfolding invDone_def same
  proof (intro allI impI)
    fix v f t' assume a: "regToReg F T live v f t' \<and> \<not> bit (targetRegsToDo st) t'"
    with iD have "regVal m t' = Some v" unfolding invDone_def by blast
    with a xplace[of v f t'] show "regVal m' t' = Some v" unfolding m' by simp
  qed
  have c5: "invOthers F T live m'"
    unfolding invOthers_def
  proof (intro conjI ballI allI impI)
    fix v r assume v: "v \<in> set live" and a: "F v = REG r \<and> T v = REG r"
    from temp_not_live(1)[OF res v, of t] tmp a have "r \<noteq> x" by auto
    moreover from iO v a have "regVal m r = Some v" unfolding invOthers_def by blast
    ultimately show "regVal m' r = Some v" unfolding m' by simp
  next
    fix v assume "v \<in> set live" "F v = REG_STK \<or> T v = REG_STK"
    with iO have "stkVal m v = Some v" unfolding invOthers_def by blast
    then show "stkVal m' v = Some v" unfolding m' by simp
  qed
  have c6: "invReady F T live st'"
    unfolding invReady_def ready' wait' same
  proof (intro allI impI conjI)
    fix r assume "r = t" then show "bit (targetRegsToDo st) r" using dt by simp
  next
    fix r v f t' assume rt: "r = t" and w: "waiting F T live st v f t'"
    show "location st' f \<noteq> REG r"
    proof (cases "f = t")
      case True
      with xplace[OF X] rt show ?thesis unfolding loc' by simp
    next
      case False
      have "location st f \<noteq> REG t"
      proof
        assume "location st f = REG t"
        from occ_unique[OF iW wY w lY this] w wY False waiting_same(1)[OF wY, of st f t']
        show False by simp
      qed
      with False rt show ?thesis unfolding loc' by simp
    qed
  qed
  have c7: "invBlocked F T live st'"
    unfolding invBlocked_def ready' wait' same
  proof (intro allI impI)
    fix r assume a: "bit (targetRegsToDo st) r \<and> r \<noteq> t"
    with iB not_ready[OF nr] obtain w f t' where w: "waiting F T live st w f t'" "location st f = REG r"
      unfolding invBlocked_def by blast
    with lY a have "f \<noteq> t" by auto
    with w show "\<exists>w f t'. waiting F T live st w f t' \<and> location st' f = REG r"
      unfolding loc' by auto
  qed
  have aside': "\<And>v. setAside env F T live st' v \<Longrightarrow> v = Y"
  proof -
    fix v assume "setAside env F T live st' v"
    then obtain f t' where w: "waiting F T live st v f t'" and l: "location st' f \<noteq> REG f"
      and s: "\<not> useSwapFor env t'" unfolding setAside_def wait' by blast
    show "v = Y"
    proof (cases "f = t")
      case True
      with waiting_source_unique(1)[OF res wY, of v t'] w show ?thesis by simp
    next
      case False
      with l have "location st f \<noteq> REG f" unfolding loc' by simp
      with w s have "setAside env F T live st v" unfolding setAside_def by blast
      with none_setAside[OF inv nr] show ?thesis by simp
    qed
  qed
  have c8: "invSetAside env F T live st'"
    unfolding invSetAside_def
  proof (intro allI impI conjI)
    have "bit (targetRegsReady st') t" unfolding ready' by simp
    then show "targetRegsReady st' \<noteq> RBM_NONE" by (rule nonzero_bit)
  next
    fix v w assume "setAside env F T live st' v" "setAside env F T live st' w"
    with aside' show "w = v" by blast
  qed
  have c9: "invPhase env F T live st'"
  proof -
    have "\<forall>v f t' y. waiting F T live st' v f t' \<and> location st' f = REG y \<and> (y = f \<or> useSwapFor env t')
            \<longrightarrow> bit (targetRegsToDo st') y"
    proof (intro allI impI)
      fix v f t' y
      assume a: "waiting F T live st' v f t' \<and> location st' f = REG y \<and> (y = f \<or> useSwapFor env t')"
      then have w: "waiting F T live st v f t'" unfolding wait' by simp
      show "bit (targetRegsToDo st') y"
      proof (cases "f = t")
        case True
        with waiting_source_unique[OF res wY, of v t'] w have vy: "t' = tY" by simp
        from rr_class(1)[OF res Y] ns have "\<not> useSwapFor env tY" by simp
        with a True vy xplace[OF X] show ?thesis unfolding loc' by auto
      next
        case False
        with a have l: "location st f = REG y" unfolding loc' by simp
        from waiting_in_target[OF res inv nr w l] show ?thesis unfolding same .
      qed
    qed
    then show ?thesis unfolding invPhase_def by (rule disjI2)
  qed
  have c10: "invSwapped env F T live st'" unfolding invSwapped_def ready' using ns by simp
  have c11: "invScratch env F T live st'"
  proof -
    have ts: "toScratch F T live (InsertMove Y (REG t) (REG x))"
      using temp_not_edge[OF res tmp] unfolding toScratch_def by simp
    from rr_class(1)[OF res Y] ns xplace[OF X] wY
    have "setAside env F T live st' Y" unfolding setAside_def wait' loc' by auto
    then have ex: "\<exists>v. setAside env F T live st' v" by blast
    from resolveInvD(11)[OF inv] none_setAside[OF inv nr]
    have "scratchHeld F T live (resolutions st) 0 = Some 0" unfolding invScratch_def by simp
    with ts ex show ?thesis unfolding invScratch_def res' scratch_snoc scratchStep_def by simp
  qed
  have inv': "resolveInv env F T live m0 st'"
    unfolding resolveInv_def Let_def m'_def[symmetric]
    using c1 c2 c3 c4 c5 c6 c7 c8 c9 c10 c11 by simp
  have "regCount (targetRegsReady st') = regCount (targetRegsReady st) + 1"
    using regCount_set[OF not_ready[OF nr] t64] by (simp add: st'_def)
  moreover have "regCount (targetRegsReady st) = 0" unfolding nr by (rule regCount_none)
  ultimately have "stepsLeft st' < stepsLeft st"
    using regCount_pos[OF dt] unfolding stepsLeft_def same by simp
  with run inv' show ?thesis by blast
qed


lemma other_target:
  assumes res: "resolvable env F T live"
    and inv: "resolveInv env F T live m0 st"
    and nr: "targetRegsReady st = RBM_NONE"
    and wX: "waiting F T live st X fX t" and lX: "location st fX = REG x"
    and wY: "waiting F T live st Y fY tY" and lY: "location st fY = REG t"
  shows "chooseOtherTarget st t (REG x) sw
         = Inr (REG tY, if sw \<and> tY = x then st\<lparr> targetRegsToDo := targetRegsToDo st AND NOT (genRegMask x) \<rparr>
                         else st)"
proof -
  define m where "m = execResolutions (resolutions st) m0"
  note iS = resolveInvD(1)[OF inv] and iT = resolveInvD(2)[OF inv]
    and iW = resolveInvD(3)[OF inv, folded m_def]
  from waiting_in_target[OF res inv nr wX lX] have dx: "bit (targetRegsToDo st) x" .
  with iT obtain Z fZ where Z: "regToReg F T live Z fZ x" unfolding invToDo_def by blast
  with dx have wZ: "waiting F T live st Z fZ x" unfolding waiting_def by simp
  from iS Z have sx: "source st x = REG fZ" unfolding invSource_def by blast
  from wY have Y: "regToReg F T live Y fY tY" and dY: "bit (targetRegsToDo st) tY"
    unfolding waiting_def by simp_all
  from iS Y have sY: "source st tY = REG fY" unfolding invSource_def by blast
  show ?thesis
  proof (cases "location st fZ = REG t")
    case True
    from occ_unique[OF iW wY wZ lY True] have "Z = Y" .
    with wZ waiting_same(2)[OF wY, of st fZ x] have "x = tY" by simp
    with True sx show ?thesis unfolding chooseOtherTarget_def by (simp add: atReg_def)
  next
    case False
    have ne: "tY \<noteq> x"
    proof
      assume "tY = x"
      with rr_target_unique[OF res Y, of Z fZ] Z have "fZ = fY" by simp
      with False lY show False by simp
    qed
    have "findOtherTarget st t (regsOfMask (targetRegsToDo st)) = Inr (REG tY)"
    proof (rule findOtherTarget_finds[OF _ _ sY lY])
      fix r assume "r \<in> set (regsOfMask (targetRegsToDo st))"
      then have "bit (targetRegsToDo st) r" unfolding set_regsOfMask by simp
      with iT obtain W fW where "regToReg F T live W fW r" unfolding invToDo_def by blast
      with iS show "\<exists>f. source st r = REG f" unfolding invSource_def by blast
    next
      show "tY \<in> set (regsOfMask (targetRegsToDo st))" unfolding set_regsOfMask using dY by simp
    next
      fix r f assume "r \<in> set (regsOfMask (targetRegsToDo st))" and s: "source st r = REG f"
        and l: "location st f = REG t"
      then have dr: "bit (targetRegsToDo st) r" unfolding set_regsOfMask by simp
      with iT obtain W fW where W: "regToReg F T live W fW r" unfolding invToDo_def by blast
      with iS s have "fW = f" unfolding invSource_def by force
      with W dr have wW: "waiting F T live st W f r" unfolding waiting_def by simp
      from occ_unique[OF iW wY wW lY l] have "W = Y" .
      with wW waiting_same(2)[OF wY, of st f r] show "r = tY" by simp
    qed
    with False ne sx show ?thesis unfolding chooseOtherTarget_def by (simp add: atReg_def)
  qed
qed

lemma cycle_spill_inv:
  assumes res: "resolvable env F T live"
    and inv: "resolveInv env F T live m0 st"
    and nr: "targetRegsReady st = RBM_NONE"
    and wX: "waiting F T live st X fX t"
    and ns: "\<not> useSwapFor env t"
    and tna: "tempRegFor env t = REG_NA"
    and ne: "location st fX \<noteq> REG t"
  shows "\<exists>other st2. chooseOtherTarget st t (location st fX) False = Inr (other, st)
           \<and> breakBySpill st t (REG fX) (location st fX) other = Inr st2
           \<and> resolveInv env F T live m0 (st2\<lparr> targetRegsToDo := targetRegsToDo st2 AND NOT (genRegMask t) \<rparr>)
           \<and> stepsLeft (st2\<lparr> targetRegsToDo := targetRegsToDo st2 AND NOT (genRegMask t) \<rparr>) < stepsLeft st"
proof -
  define m where "m = execResolutions (resolutions st) m0"
  note iS = resolveInvD(1)[OF inv] and iT = resolveInvD(2)[OF inv]
    and iW = resolveInvD(3)[OF inv, folded m_def] and iD = resolveInvD(4)[OF inv, folded m_def]
    and iO = resolveInvD(5)[OF inv, folded m_def] and iB = resolveInvD(7)[OF inv]
  from wX have X: "regToReg F T live X fX t" and dt: "bit (targetRegsToDo st) t"
    unfolding waiting_def by simp_all
  note t64 = rr_lt64(2)[OF res X] and fX64 = rr_lt64(1)[OF res X]
  from X have fXt: "fX \<noteq> t" unfolding regToReg_def by simp
  from none_setAside[OF inv nr, of X] wX ns have lX: "location st fX = REG fX"
    unfolding setAside_def by blast
  from waiting_in_target[OF res inv nr wX lX] have dfX: "bit (targetRegsToDo st) fX" .
  from occupant[OF res inv nr dt] ns obtain Y tY where
    wY: "waiting F T live st Y t tY" and lY: "location st t = REG t" by metis
  from wY have Y: "regToReg F T live Y t tY" unfolding waiting_def by simp
  from iS Y have sY: "source st tY = REG t" unfolding invSource_def by blast
  note siY = waitingD(1)[OF iW wY] and siX = waitingD(1)[OF iW wX]
  from waitingD(2)[OF iW wY] lY have rY: "regVal m t = Some Y" unfolding positioned_def by simp
  from waitingD(2)[OF iW wX] lX have rX: "regVal m fX = Some X" unfolding positioned_def by simp
  from rX rY fXt have XY: "X \<noteq> Y" using waiting_same(1)[OF wX, of st t tY] wY by auto
  have choose: "chooseOtherTarget st t (location st fX) False = Inr (REG tY, st)"
    using other_target[OF res inv nr wX lX wY lY, of False] lX by simp
  define st2 where "st2 = st\<lparr> spilledIntervals := spilledIntervals st @ [Y],
                              resolutions := (resolutions st @ [InsertMove Y (REG t) REG_STK])
                                             @ [InsertMove X (REG fX) (REG t)],
                              location := ((location st)(t := REG_STK))(fX := REG_NA),
                              targetRegsReady := targetRegsReady st OR genRegMask fX \<rparr>"
  have run: "breakBySpill st t (REG fX) (location st fX) (REG tY) = Inr st2"
    unfolding breakBySpill_def lX st2_def using sY siY siX by (simp add: atReg_def intervalAt_def Let_def)
  define st' where "st' = st2\<lparr> targetRegsToDo := targetRegsToDo st2 AND NOT (genRegMask t) \<rparr>"
  have same: "source st' = source st" "sourceIntervals st' = sourceIntervals st"
    and loc': "location st' = ((location st)(t := REG_STK))(fX := REG_NA)"
    and res': "resolutions st' = (resolutions st @ [InsertMove Y (REG t) REG_STK]) @ [InsertMove X (REG fX) (REG t)]"
    by (simp_all add: st'_def st2_def)
  have todo': "\<And>r. bit (targetRegsToDo st') r = (bit (targetRegsToDo st) r \<and> r \<noteq> t)"
    by (simp add: st'_def st2_def bit_clear)
  have ready': "\<And>r. bit (targetRegsReady st') r = (r = fX)"
    using fX64 not_ready[OF nr] by (auto simp add: st'_def st2_def bit_or_iff bit_genRegMask)
  note wait' = waiting_clear[OF res X todo']
  define m' where "m' = execResolutions (resolutions st') m0"
  have m': "m' = m\<lparr> stkVal := (stkVal m)(Y := Some Y), regVal := (regVal m)(t := Some X) \<rparr>"
    unfolding m'_def res' exec_append m_def[symmetric] using rY rX by simp
  have att: "\<And>v f t'. waiting F T live st v f t' \<Longrightarrow> location st f = REG t \<Longrightarrow> v = Y \<and> f = t"
  proof -
    fix v f t' assume w: "waiting F T live st v f t'" and l: "location st f = REG t"
    from occ_unique[OF iW wY w lY l] have "v = Y" .
    with w waiting_same(1)[OF wY, of st f t'] show "v = Y \<and> f = t" by simp
  qed
  have atfX: "\<And>v f t'. waiting F T live st v f t' \<Longrightarrow> location st f = REG fX \<Longrightarrow> v = X"
    using occ_unique[OF iW wX _ lX] by blast
  have c1: "invSource F T live st'" using iS unfolding invSource_def same .
  have c2: "invToDo F T live st'" using iT unfolding invToDo_def todo' by blast
  have c3: "invWaiting env F T live m' st'"
    unfolding invWaiting_def wait' same
  proof (intro allI impI)
    fix v f t' assume "waiting F T live st v f t' \<and> v \<noteq> X"
    then have w: "waiting F T live st v f t'" and vX: "v \<noteq> X" by simp_all
    note a = waitingD[OF iW w]
    from waiting_other(1)[OF res wX w vX] have ff: "f \<noteq> fX" .
    show "sourceIntervals st f = Some v \<and> positioned m' v (location st' f)
        \<and> (location st' f = REG f
            \<or> (useSwapFor env t' \<and> (\<exists>x. location st' f = REG x \<and> useSwapFor env x))
            \<or> (\<not> useSwapFor env t' \<and> location st' f = tempRegFor env t' \<and> tempRegFor env t' \<noteq> REG_NA)
            \<or> (\<not> useSwapFor env t' \<and> location st' f = REG_STK \<and> tempRegFor env t' = REG_NA))"
    proof (cases "f = t")
      case True
      with waiting_source_unique[OF res wY, of v t'] w have vy: "v = Y" "t' = tY" by simp_all
      from rr_class[OF res Y] ns tna have "\<not> useSwapFor env tY" "tempRegFor env tY = REG_NA" by simp_all
      with vy True ff a(1) show ?thesis unfolding loc' m' positioned_def by simp
    next
      case False
      from att[OF w] False have nt: "location st f \<noteq> REG t" by blast
      from False w waiting_same(1)[OF wY, of st f t'] have vY: "v \<noteq> Y" by auto
      from nt vY a(2) have "positioned m' v (location st f)"
        unfolding positioned_def m' by (cases "location st f") simp_all
      with False ff a show ?thesis unfolding loc' by simp
    qed
  qed
  have c4: "invDone F T live m' st'"
    unfolding invDone_def
  proof (intro allI impI)
    fix v f t' assume a: "regToReg F T live v f t' \<and> \<not> bit (targetRegsToDo st') t'"
    show "regVal m' t' = Some v"
    proof (cases "v = X")
      case True
      with a same_var(2)[OF X, of f t'] have "t' = t" by simp
      with True show ?thesis unfolding m' by simp
    next
      case False
      with a other_var(2)[OF res X, of v f t'] have nt: "t' \<noteq> t" and "\<not> bit (targetRegsToDo st) t'"
        unfolding todo' by simp_all
      with a iD have "regVal m t' = Some v" unfolding invDone_def by blast
      with nt show ?thesis unfolding m' by simp
    qed
  qed
  have c5: "invOthers F T live m'"
    unfolding invOthers_def
  proof (intro conjI ballI allI impI)
    fix v r assume v: "v \<in> set live" and a: "F v = REG r \<and> T v = REG r"
    from X have "X \<in> set live" "T X = REG t" "F X = REG fX" unfolding regToReg_def by simp_all
    with resolvable_inj(2)[OF res v, of X r] a fXt have "r \<noteq> t" by auto
    moreover from iO v a have "regVal m r = Some v" unfolding invOthers_def by blast
    ultimately show "regVal m' r = Some v" unfolding m' by simp
  next
    fix v assume v: "v \<in> set live" "F v = REG_STK \<or> T v = REG_STK"
    with Y have "v \<noteq> Y" unfolding regToReg_def by auto
    moreover from iO v have "stkVal m v = Some v" unfolding invOthers_def by blast
    ultimately show "stkVal m' v = Some v" unfolding m' by simp
  qed
  have c6: "invReady F T live st'"
    unfolding invReady_def ready' wait'
  proof (intro allI impI conjI)
    fix r assume "r = fX" then show "bit (targetRegsToDo st') r" unfolding todo' using dfX fXt by simp
  next
    fix r v f t' assume rf: "r = fX" and "waiting F T live st v f t' \<and> v \<noteq> X"
    then have w: "waiting F T live st v f t'" and vX: "v \<noteq> X" by simp_all
    from waiting_other(1)[OF res wX w vX] have ff: "f \<noteq> fX" .
    from atfX[OF w] vX have "location st f \<noteq> REG fX" by blast
    with ff rf show "location st' f \<noteq> REG r" unfolding loc' by simp
  qed
  have c7: "invBlocked F T live st'"
    unfolding invBlocked_def ready'
  proof (intro allI impI)
    fix r assume a: "bit (targetRegsToDo st') r \<and> r \<noteq> fX"
    then have "bit (targetRegsToDo st) r" and rt: "r \<noteq> t" unfolding todo' by simp_all
    with iB not_ready[OF nr] obtain w f t' where w: "waiting F T live st w f t'" "location st f = REG r"
      unfolding invBlocked_def by blast
    from w(2) lY rt have ft: "f \<noteq> t" by auto
    from w(2) lX a have ff: "f \<noteq> fX" by auto
    with w(1) waiting_same(1)[OF wX, of st f t'] have "w \<noteq> X" by auto
    with w ft ff show "\<exists>w f t'. waiting F T live st' w f t' \<and> location st' f = REG r"
      unfolding wait' loc' by auto
  qed
  have aside': "\<And>v. setAside env F T live st' v \<Longrightarrow> v = Y"
  proof -
    fix v assume "setAside env F T live st' v"
    then obtain f t' where w: "waiting F T live st v f t'" and vX: "v \<noteq> X" and l: "location st' f \<noteq> REG f"
      and s: "\<not> useSwapFor env t'" unfolding setAside_def wait' by blast
    from waiting_other(1)[OF res wX w vX] have ff: "f \<noteq> fX" .
    show "v = Y"
    proof (cases "f = t")
      case True
      with waiting_source_unique(1)[OF res wY, of v t'] w show ?thesis by simp
    next
      case False
      with l ff have "location st f \<noteq> REG f" unfolding loc' by simp
      with w s have "setAside env F T live st v" unfolding setAside_def by blast
      with none_setAside[OF inv nr] show ?thesis by simp
    qed
  qed
  have c8: "invSetAside env F T live st'"
    unfolding invSetAside_def
  proof (intro allI impI conjI)
    have "bit (targetRegsReady st') fX" unfolding ready' by simp
    then show "targetRegsReady st' \<noteq> RBM_NONE" by (rule nonzero_bit)
  next
    fix v w assume "setAside env F T live st' v" "setAside env F T live st' w"
    with aside' show "w = v" by blast
  qed
  have c9: "invPhase env F T live st'"
  proof -
    have "\<forall>v f t' y. waiting F T live st' v f t' \<and> location st' f = REG y \<and> (y = f \<or> useSwapFor env t')
            \<longrightarrow> bit (targetRegsToDo st') y"
    proof (intro allI impI)
      fix v f t' y
      assume a: "waiting F T live st' v f t' \<and> location st' f = REG y \<and> (y = f \<or> useSwapFor env t')"
      then have w: "waiting F T live st v f t'" and vX: "v \<noteq> X" unfolding wait' by simp_all
      from waiting_other(1)[OF res wX w vX] have ff: "f \<noteq> fX" .
      from a ff have ft: "f \<noteq> t" unfolding loc' by auto
      with a ff have l: "location st f = REG y" unfolding loc' by simp
      from att[OF w] l ft have "y \<noteq> t" by blast
      with waiting_in_target[OF res inv nr w l] show "bit (targetRegsToDo st') y" unfolding todo' by simp
    qed
    then show ?thesis unfolding invPhase_def by (rule disjI2)
  qed
  have c10: "invSwapped env F T live st'"
    unfolding invSwapped_def ready' using ns rr_class(1)[OF res X] by simp
  have c11: "invScratch env F T live st'"
  proof -
    have ts: "toScratch F T live (InsertMove Y (REG t) REG_STK)"
      using Y unfolding toScratch_def regToReg_def by simp
    have n2: "\<not> toScratch F T live (InsertMove X (REG fX) (REG t))"
      "\<not> fromScratch F T live (InsertMove X (REG fX) (REG t))"
      using edge_regs[OF X] unfolding toScratch_def fromScratch_def by simp_all
    from rr_class(1)[OF res Y] ns fXt wY XY
    have "setAside env F T live st' Y" unfolding setAside_def wait' loc' by auto
    then have ex: "\<exists>v. setAside env F T live st' v" by blast
    from resolveInvD(11)[OF inv] none_setAside[OF inv nr]
    have "scratchHeld F T live (resolutions st) 0 = Some 0" unfolding invScratch_def by simp
    with ts n2 ex show ?thesis unfolding invScratch_def res' scratch_snoc scratchStep_def by simp
  qed
  have inv': "resolveInv env F T live m0 st'"
    unfolding resolveInv_def Let_def m'_def[symmetric]
    using c1 c2 c3 c4 c5 c6 c7 c8 c9 c10 c11 by simp
  have "regCount (targetRegsToDo st') = regCount (targetRegsToDo st) - 1"
    using regCount_clear[OF dt] by (simp add: st'_def st2_def)
  moreover have "regCount (targetRegsReady st) = 0" unfolding nr by (rule regCount_none)
  ultimately have "stepsLeft st' < stepsLeft st"
    using regCount_pos[OF dt] unfolding stepsLeft_def by simp
  with choose run inv' show ?thesis unfolding st'_def by blast
qed


lemma cycle_swap_inv:
  assumes res: "resolvable env F T live"
    and inv: "resolveInv env F T live m0 st"
    and nr: "targetRegsReady st = RBM_NONE"
    and wX: "waiting F T live st X fX t"
    and sw: "useSwapFor env t"
    and ne: "location st fX \<noteq> REG t"
  shows "\<exists>other st1 st2. chooseOtherTarget st t (location st fX) True = Inr (other, st1)
           \<and> breakBySwap st1 t (REG fX) (location st fX) other = Inr st2
           \<and> resolveInv env F T live m0 (st2\<lparr> targetRegsToDo := targetRegsToDo st2 AND NOT (genRegMask t) \<rparr>)
           \<and> stepsLeft (st2\<lparr> targetRegsToDo := targetRegsToDo st2 AND NOT (genRegMask t) \<rparr>) < stepsLeft st"
proof -
  define m where "m = execResolutions (resolutions st) m0"
  note iS = resolveInvD(1)[OF inv] and iT = resolveInvD(2)[OF inv]
    and iW = resolveInvD(3)[OF inv, folded m_def] and iD = resolveInvD(4)[OF inv, folded m_def]
    and iO = resolveInvD(5)[OF inv, folded m_def] and iB = resolveInvD(7)[OF inv]
  from wX have X: "regToReg F T live X fX t" and dt: "bit (targetRegsToDo st) t"
    unfolding waiting_def by simp_all
  from waitingD(3)[OF iW wX] sw rr_class(1)[OF res X] obtain x where
    lX: "location st fX = REG x" and swx: "useSwapFor env x" by auto
  from ne lX have xt: "x \<noteq> t" by simp
  from waiting_in_target[OF res inv nr wX lX] have dx: "bit (targetRegsToDo st) x" .
  from occupant[OF res inv nr dt] obtain Y fY tY where
    wY: "waiting F T live st Y fY tY" and lY: "location st fY = REG t"
    and oY: "fY = t \<or> (useSwapFor env tY \<and> useSwapFor env t)" by metis
  from wY have Y: "regToReg F T live Y fY tY" and dY: "bit (targetRegsToDo st) tY"
    unfolding waiting_def by simp_all
  from oY rr_class(1)[OF res Y] sw have swY: "useSwapFor env tY" by auto
  from iS Y have sY: "source st tY = REG fY" unfolding invSource_def by blast
  note siY = waitingD(1)[OF iW wY] and siX = waitingD(1)[OF iW wX]
  from waitingD(2)[OF iW wY] lY have rY: "regVal m t = Some Y" unfolding positioned_def by simp
  from waitingD(2)[OF iW wX] lX have rX: "regVal m x = Some X" unfolding positioned_def by simp
  have XY: "X \<noteq> Y"
  proof
    assume "X = Y"
    with wY waiting_same(1)[OF wX, of st fY tY] lX lY xt show False by simp
  qed
  from other_var[OF res X Y] XY have ff: "fY \<noteq> fX" and tt: "tY \<noteq> t" by auto
  define chance where "chance = (tY = x)"
  define st1 where "st1 = (if chance then st\<lparr> targetRegsToDo := targetRegsToDo st AND NOT (genRegMask x) \<rparr> else st)"
  have choose: "chooseOtherTarget st t (location st fX) True = Inr (REG tY, st1)"
    using other_target[OF res inv nr wX lX wY lY, of True] lX unfolding st1_def chance_def by simp
  define st2 where "st2 = st1\<lparr> resolutions := resolutions st1 @ [InsertSwap Y (REG t) X (REG x)],
                               location := ((location st1)(fX := REG_NA))(fY := REG x) \<rparr>"
  have st1same: "source st1 = source st" "sourceIntervals st1 = sourceIntervals st"
    "location st1 = location st" "resolutions st1 = resolutions st" "targetRegsReady st1 = targetRegsReady st"
    by (simp_all add: st1_def)
  have run: "breakBySwap st1 t (REG fX) (location st fX) (REG tY) = Inr st2"
    unfolding breakBySwap_def lX st2_def st1same using sY siY siX
    by (simp add: atReg_def intervalAt_def)
  define st' where "st' = st2\<lparr> targetRegsToDo := targetRegsToDo st2 AND NOT (genRegMask t) \<rparr>"
  have same: "source st' = source st" "sourceIntervals st' = sourceIntervals st"
    "targetRegsReady st' = targetRegsReady st"
    and loc': "location st' = ((location st)(fX := REG_NA))(fY := REG x)"
    and res': "resolutions st' = resolutions st @ [InsertSwap Y (REG t) X (REG x)]"
    by (simp_all add: st'_def st2_def st1_def)
  have todo': "\<And>r. bit (targetRegsToDo st') r = (bit (targetRegsToDo st) r \<and> r \<noteq> t \<and> \<not> (chance \<and> r = x))"
    by (auto simp add: st'_def st2_def st1_def bit_clear)
  have nr': "\<And>r. \<not> bit (targetRegsReady st') r" unfolding same using not_ready[OF nr] .
  have wait': "\<And>v f t'. waiting F T live st' v f t'
                 = (waiting F T live st v f t' \<and> v \<noteq> X \<and> \<not> (chance \<and> v = Y))"
  proof -
    fix v f t'
    show "waiting F T live st' v f t' = (waiting F T live st v f t' \<and> v \<noteq> X \<and> \<not> (chance \<and> v = Y))"
    proof (cases "regToReg F T live v f t'")
      case False
      then show ?thesis unfolding waiting_def by simp
    next
      case r: True
      have a: "(t' \<noteq> t) = (v \<noteq> X)"
        using other_var(2)[OF res X r] same_var(2)[OF X, of f t'] r by auto
      have b: "(t' = tY) = (v = Y)"
        using other_var(2)[OF res Y r] same_var(2)[OF Y, of f t'] r by auto
      from a b show ?thesis unfolding waiting_def todo' chance_def by auto
    qed
  qed
  define m' where "m' = execResolutions (resolutions st') m0"
  have m': "m' = m\<lparr> regVal := ((regVal m)(t := Some X))(x := Some Y) \<rparr>"
    unfolding m'_def res' exec_append m_def[symmetric] using rY rX by simp
  have att: "\<And>v f t'. waiting F T live st v f t' \<Longrightarrow> location st f = REG t \<Longrightarrow> v = Y"
    using occ_unique[OF iW wY _ lY] by blast
  have atx: "\<And>v f t'. waiting F T live st v f t' \<Longrightarrow> location st f = REG x \<Longrightarrow> v = X"
    using occ_unique[OF iW wX _ lX] by blast
  have c1: "invSource F T live st'" using iS unfolding invSource_def same .
  have c2: "invToDo F T live st'" using iT unfolding invToDo_def todo' by blast
  have c3: "invWaiting env F T live m' st'"
    unfolding invWaiting_def wait' same
  proof (intro allI impI)
    fix v f t' assume "waiting F T live st v f t' \<and> v \<noteq> X \<and> \<not> (chance \<and> v = Y)"
    then have w: "waiting F T live st v f t'" and vX: "v \<noteq> X" by simp_all
    note a = waitingD[OF iW w]
    from waiting_other(1)[OF res wX w vX] have f1: "f \<noteq> fX" .
    show "sourceIntervals st f = Some v \<and> positioned m' v (location st' f)
        \<and> (location st' f = REG f
            \<or> (useSwapFor env t' \<and> (\<exists>x. location st' f = REG x \<and> useSwapFor env x))
            \<or> (\<not> useSwapFor env t' \<and> location st' f = tempRegFor env t' \<and> tempRegFor env t' \<noteq> REG_NA)
            \<or> (\<not> useSwapFor env t' \<and> location st' f = REG_STK \<and> tempRegFor env t' = REG_NA))"
    proof (cases "v = Y")
      case True
      with w waiting_same[OF wY, of st f t'] have e: "f = fY" "t' = tY" by simp_all
      with True a(1) swY swx show ?thesis unfolding loc' m' positioned_def by simp
    next
      case False
      from waiting_other(1)[OF res wY w False] have f2: "f \<noteq> fY" .
      from att[OF w] atx[OF w] vX False have "location st f \<noteq> REG t" "location st f \<noteq> REG x" by blast+
      with a(2) have "positioned m' v (location st f)"
        unfolding positioned_def m' by (cases "location st f") simp_all
      with f1 f2 a show ?thesis unfolding loc' by simp
    qed
  qed
  have c4: "invDone F T live m' st'"
    unfolding invDone_def
  proof (intro allI impI)
    fix v f t' assume a: "regToReg F T live v f t' \<and> \<not> bit (targetRegsToDo st') t'"
    show "regVal m' t' = Some v"
    proof (cases "v = X")
      case True
      with a same_var(2)[OF X, of f t'] have "t' = t" by simp
      with True xt show ?thesis unfolding m' by simp
    next
      case vX: False
      show ?thesis
      proof (cases "v = Y")
        case True
        with a same_var(2)[OF Y, of f t'] have e: "t' = tY" by simp
        with a dY tt have "tY = x" unfolding todo' chance_def by auto
        with e True show ?thesis unfolding m' by simp
      next
        case False
        with a vX other_var(2)[OF res X, of v f t'] other_var(2)[OF res Y, of v f t']
        have n: "t' \<noteq> t" "t' \<noteq> tY" by simp_all
        with a have nd: "\<not> bit (targetRegsToDo st) t'" unfolding todo' chance_def by auto
        with dx have "t' \<noteq> x" by auto
        moreover from a nd iD have "regVal m t' = Some v" unfolding invDone_def by blast
        ultimately show ?thesis using n unfolding m' by simp
      qed
    qed
  qed
  have c5: "invOthers F T live m'"
    unfolding invOthers_def
  proof (intro conjI ballI allI impI)
    fix v r assume v: "v \<in> set live" and a: "F v = REG r \<and> T v = REG r"
    from X have Xl: "X \<in> set live" "T X = REG t" "F X = REG fX" "fX \<noteq> t" unfolding regToReg_def by simp_all
    with resolvable_inj(2)[OF res v, of X r] a have "r \<noteq> t" by auto
    moreover have "r \<noteq> x"
    proof
      assume rx: "r = x"
      from iT dx obtain Z fZ where Z: "regToReg F T live Z fZ x" unfolding invToDo_def by blast
      then have "Z \<in> set live" "T Z = REG x" "F Z = REG fZ" "fZ \<noteq> x" unfolding regToReg_def by simp_all
      with resolvable_inj(2)[OF res v, of Z r] a rx show False by auto
    qed
    moreover from iO v a have "regVal m r = Some v" unfolding invOthers_def by blast
    ultimately show "regVal m' r = Some v" unfolding m' by simp
  next
    fix v assume v: "v \<in> set live" "F v = REG_STK \<or> T v = REG_STK"
    with iO have "stkVal m v = Some v" unfolding invOthers_def by blast
    then show "stkVal m' v = Some v" unfolding m' by simp
  qed
  have c6: "invReady F T live st'" unfolding invReady_def using nr' by simp
  have c7: "invBlocked F T live st'"
    unfolding invBlocked_def
  proof (intro allI impI)
    fix r assume a: "bit (targetRegsToDo st') r \<and> \<not> bit (targetRegsReady st') r"
    then have dr: "bit (targetRegsToDo st) r" and rt: "r \<noteq> t" and nc: "\<not> (chance \<and> r = x)"
      unfolding todo' by simp_all
    from iB dr not_ready[OF nr] obtain w f t' where w: "waiting F T live st w f t'" "location st f = REG r"
      unfolding invBlocked_def by blast
    show "\<exists>w f t'. waiting F T live st' w f t' \<and> location st' f = REG r"
    proof (cases "r = x")
      case True
      with nc have "\<not> chance" by simp
      with wY XY have "waiting F T live st' Y fY tY" unfolding wait' by simp
      moreover have "location st' fY = REG r" unfolding loc' True by simp
      ultimately show ?thesis by blast
    next
      case False
      with w(2) lX have f1: "f \<noteq> fX" by auto
      from w(2) lY rt have f2: "f \<noteq> fY" by auto
      from f1 w(1) waiting_same(1)[OF wX, of st f t'] have "w \<noteq> X" by auto
      moreover from f2 w(1) waiting_same(1)[OF wY, of st f t'] have "w \<noteq> Y" by auto
      ultimately have "waiting F T live st' w f t'" using w(1) unfolding wait' by simp
      moreover from f1 f2 w(2) have "location st' f = REG r" unfolding loc' by simp
      ultimately show ?thesis by blast
    qed
  qed
  have aside': "\<And>v. \<not> setAside env F T live st' v"
  proof
    fix v assume "setAside env F T live st' v"
    then obtain f t' where w: "waiting F T live st v f t'" and vX: "v \<noteq> X" and l: "location st' f \<noteq> REG f"
      and s: "\<not> useSwapFor env t'" unfolding setAside_def wait' by blast
    from waiting_other(1)[OF res wX w vX] have f1: "f \<noteq> fX" .
    have vY: "v \<noteq> Y"
    proof
      assume "v = Y"
      with w waiting_same(2)[OF wY, of st f t'] s swY show False by simp
    qed
    from waiting_other(1)[OF res wY w vY] have f2: "f \<noteq> fY" .
    from l f1 f2 have "location st f \<noteq> REG f" unfolding loc' by simp
    with w s have "setAside env F T live st v" unfolding setAside_def by blast
    with none_setAside[OF inv nr] show False by simp
  qed
  have c8: "invSetAside env F T live st'" unfolding invSetAside_def using aside' by simp
  have c9: "invPhase env F T live st'"
  proof -
    have "\<forall>v f t' y. waiting F T live st' v f t' \<and> location st' f = REG y \<and> (y = f \<or> useSwapFor env t')
            \<longrightarrow> bit (targetRegsToDo st') y"
    proof (intro allI impI)
      fix v f t' y
      assume a: "waiting F T live st' v f t' \<and> location st' f = REG y \<and> (y = f \<or> useSwapFor env t')"
      then have w: "waiting F T live st v f t'" and vX: "v \<noteq> X" and nc: "\<not> (chance \<and> v = Y)"
        unfolding wait' by simp_all
      from waiting_other(1)[OF res wX w vX] have f1: "f \<noteq> fX" .
      show "bit (targetRegsToDo st') y"
      proof (cases "v = Y")
        case True
        with w waiting_same(1)[OF wY, of st f t'] have "f = fY" by simp
        with a have "y = x" unfolding loc' by simp
        with True nc dx xt show ?thesis unfolding todo' by simp
      next
        case False
        from waiting_other(1)[OF res wY w False] have f2: "f \<noteq> fY" .
        with a f1 have l: "location st f = REG y" unfolding loc' by simp
        from att[OF w] atx[OF w] l vX False have "y \<noteq> t" "y \<noteq> x" by blast+
        with waiting_in_target[OF res inv nr w l] show ?thesis unfolding todo' by simp
      qed
    qed
    then show ?thesis unfolding invPhase_def by (rule disjI2)
  qed
  have c10: "invSwapped env F T live st'" unfolding invSwapped_def using nr' by simp
  have c11: "invScratch env F T live st'"
  proof -
    have n2: "\<not> toScratch F T live (InsertSwap Y (REG t) X (REG x))"
      "\<not> fromScratch F T live (InsertSwap Y (REG t) X (REG x))"
      unfolding toScratch_def fromScratch_def by simp_all
    from resolveInvD(11)[OF inv] none_setAside[OF inv nr]
    have "scratchHeld F T live (resolutions st) 0 = Some 0" unfolding invScratch_def by simp
    with n2 aside' show ?thesis unfolding invScratch_def res' scratch_snoc scratchStep_def by simp
  qed
  have inv': "resolveInv env F T live m0 st'"
    unfolding resolveInv_def Let_def m'_def[symmetric]
    using c1 c2 c3 c4 c5 c6 c7 c8 c9 c10 c11 by simp
  have "regCount (targetRegsToDo st') \<le> regCount (targetRegsToDo st AND NOT (genRegMask t))"
    by (rule regCount_mono) (simp add: todo' bit_clear)
  with regCount_clear[OF dt] have "regCount (targetRegsToDo st') \<le> regCount (targetRegsToDo st) - 1" by simp
  moreover have "regCount (targetRegsReady st) = 0" unfolding nr by (rule regCount_none)
  ultimately have "stepsLeft st' < stepsLeft st"
    using regCount_pos[OF dt] unfolding stepsLeft_def same by simp
  with choose run inv' show ?thesis unfolding st'_def by blast
qed


lemma tempRegFor_cases:
  assumes "resolvable env F T live"
  shows "tempRegFor env r = REG_NA \<or> (\<exists>x. tempRegFor env r = REG x)"
  using assms unfolding resolvable_def tempRegFree_def tempRegFor_def
  by (cases "tempRegInt env"; cases "tempRegFlt env"; auto)

lemma cycleStep_inv:
  assumes res: "resolvable env F T live"
    and inv: "resolveInv env F T live m0 st"
    and nr: "targetRegsReady st = RBM_NONE"
    and ne: "targetRegsToDo st \<noteq> RBM_NONE"
  shows "\<exists>st'. cycleStep env st = Inr st' \<and> resolveInv env F T live m0 st'
               \<and> stepsLeft st' < stepsLeft st"
proof -
  define t where "t = lowestReg (targetRegsToDo st)"
  have bt: "bit (targetRegsToDo st) t"
    using lowestReg_bit[OF ne] unfolding t_def by simp
  from resolveInvD(2)[OF inv] bt obtain X fX where rr: "regToReg F T live X fX t"
    unfolding invToDo_def by blast
  have wX: "waiting F T live st X fX t"
    using rr bt unfolding waiting_def by simp
  have src: "source st t = REG fX"
    using resolveInvD(1)[OF inv] rr unfolding invSource_def by blast
  have at: "atReg (location st) (REG fX) = Inr (location st fX)"
    by (simp add: atReg_def)
  show ?thesis
  proof (cases "location st fX = REG t")
    case True
    have "cycleStep env st = Inr (st\<lparr> targetRegsToDo := targetRegsToDo st AND NOT (genRegMask t) \<rparr>)"
      unfolding cycleStep_def Let_def t_def[symmetric] src at using True by simp
    with cycle_done_inv[OF res inv nr wX True] show ?thesis by simp
  next
    case False
    then have nf: "REG t \<noteq> location st fX" by auto
    show ?thesis
    proof (cases "useSwapFor env t")
      case True
      from cycle_swap_inv[OF res inv nr wX True False] obtain other st1 st2 where
        c: "chooseOtherTarget st t (location st fX) True = Inr (other, st1)"
        and b: "breakBySwap st1 t (REG fX) (location st fX) other = Inr st2"
        and i: "resolveInv env F T live m0 (st2\<lparr> targetRegsToDo := targetRegsToDo st2 AND NOT (genRegMask t) \<rparr>)"
        and s: "stepsLeft (st2\<lparr> targetRegsToDo := targetRegsToDo st2 AND NOT (genRegMask t) \<rparr>) < stepsLeft st"
        by blast
      have "cycleStep env st = Inr (st2\<lparr> targetRegsToDo := targetRegsToDo st2 AND NOT (genRegMask t) \<rparr>)"
        unfolding cycleStep_def Let_def t_def[symmetric] src at using nf True c b by simp
      with i s show ?thesis by simp
    next
      case ns: False
      from tempRegFor_cases[OF res, of t] show ?thesis
      proof
        assume tna: "tempRegFor env t = REG_NA"
        from cycle_spill_inv[OF res inv nr wX ns tna False] obtain other st2 where
          c: "chooseOtherTarget st t (location st fX) False = Inr (other, st)"
          and b: "breakBySpill st t (REG fX) (location st fX) other = Inr st2"
          and i: "resolveInv env F T live m0 (st2\<lparr> targetRegsToDo := targetRegsToDo st2 AND NOT (genRegMask t) \<rparr>)"
          and s: "stepsLeft (st2\<lparr> targetRegsToDo := targetRegsToDo st2 AND NOT (genRegMask t) \<rparr>) < stepsLeft st"
          by blast
        have "cycleStep env st = Inr (st2\<lparr> targetRegsToDo := targetRegsToDo st2 AND NOT (genRegMask t) \<rparr>)"
          unfolding cycleStep_def Let_def t_def[symmetric] src at using nf ns tna c b by simp
        with i s show ?thesis by simp
      next
        assume "\<exists>x. tempRegFor env t = REG x"
        then obtain x where tmp: "tempRegFor env t = REG x" ..
        from cycle_temp_inv[OF res inv nr wX ns tmp] obtain st' where
          b: "breakByTemp st t (REG x) = Inr st'"
          and i: "resolveInv env F T live m0 st'" and s: "stepsLeft st' < stepsLeft st"
          by blast
        have "cycleStep env st = Inr st'"
          unfolding cycleStep_def Let_def t_def[symmetric] src at using nf ns tmp b by simp
        with i s show ?thesis by simp
      qed
    qed
  qed
qed

lemma regCount_zero:
  assumes "regCount m = 0"
  shows "m = RBM_NONE"
proof -
  have "\<not> bit m r" for r
    using regCount_pos[of m r] assms by auto
  then show ?thesis
    unfolding RBM_NONE_def by (simp add: bit_eq_iff)
qed

lemma todo_le_steps:
  assumes "resolveInv env F T live m0 st"
  shows "regCount (targetRegsToDo st) \<le> stepsLeft st"
  using ready_le_todo[OF resolveInvD(6)[OF assms]] unfolding stepsLeft_def by simp

lemma regToRegLoop_done:
  "targetRegsToDo st = RBM_NONE \<Longrightarrow> regToRegLoop n env st = Some (Inr st)"
  by (cases n) simp_all

lemma regToRegLoop_inv:
  assumes res: "resolvable env F T live"
  shows "resolveInv env F T live m0 st \<Longrightarrow> stepsLeft st \<le> n \<Longrightarrow>
         \<exists>st'. regToRegLoop n env st = Some (Inr st') \<and> resolveInv env F T live m0 st'
               \<and> targetRegsToDo st' = RBM_NONE"
proof (induction n arbitrary: st)
  case 0
  from todo_le_steps[OF 0(1)] 0(2) have "regCount (targetRegsToDo st) = 0" by simp
  then have "targetRegsToDo st = RBM_NONE" by (rule regCount_zero)
  with 0(1) show ?case by simp
next
  case (Suc n)
  show ?case
  proof (cases "targetRegsToDo st = RBM_NONE")
    case True
    with Suc.prems(1) show ?thesis by simp
  next
    case False
    from readyLoop_inv[OF res Suc.prems(1) Suc.prems(2)] obtain st1 where
      rl: "readyLoop (Suc n) st = Some (Inr st1)"
      and i1: "resolveInv env F T live m0 st1"
      and r1: "targetRegsReady st1 = RBM_NONE"
      and s1: "stepsLeft st1 \<le> stepsLeft st"
      by blast
    show ?thesis
    proof (cases "targetRegsToDo st1 = RBM_NONE")
      case True
      have "regToRegLoop (Suc n) env st = regToRegLoop n env st1"
        using False rl True by simp
      with regToRegLoop_done[OF True] i1 True show ?thesis by simp
    next
      case ne: False
      from cycleStep_inv[OF res i1 r1 ne] obtain st2 where
        c: "cycleStep env st1 = Inr st2"
        and i2: "resolveInv env F T live m0 st2" and s2: "stepsLeft st2 < stepsLeft st1"
        by blast
      have "regToRegLoop (Suc n) env st = regToRegLoop n env st2"
        using False rl ne c by simp
      moreover have "stepsLeft st2 \<le> n" using s2 s1 Suc.prems(2) by simp
      ultimately show ?thesis using Suc.IH[OF i2] by simp
    qed
  qed
qed



































subsection \<open>\<^verbatim>\<open>resolveEdge\<close>: the order and the effect of the moves\<close>



lemma exEdge_moves:
  "resolveEdge 128 exEdgeEnv exEdgeFrom exEdgeTo exEdgeLive
     = Some (Inr [InsertMove 2 (REG 3) REG_STK, InsertSwap 0 (REG 1) 1 (REG 2), InsertMove 3 REG_STK (REG 3)])"
  by code_simp



end
